theory Spec2Isabelle
  imports Complex_Main "HOL-Library.Char_ord" "HOL-Library.List_Lexorder" "HOL-Library.Sublist"
begin

section \<open>Values read from the configuration file\<close>

text \<open>
  \<^verbatim>\<open>JSON.parse\<close> yields a JavaScript value. \<open>JObj\<close> holds the members of an object in
  the order of the text; where a key is repeated \<^verbatim>\<open>JSON.parse\<close> keeps the last member.
  A property that is absent reads as \<^verbatim>\<open>undefined\<close>, which is \<open>None\<close> here. The program
  does no arithmetic on numbers, it only tests them for truthiness and hands them on.
\<close>

datatype json =
    JNull
  | JBool bool
  | JNum real
  | JStr string
  | JArr "json list"
  | JObj "(string \<times> json) list"

type_synonym error = string

text \<open>
  Decimal rendering of a natural number, as \<^verbatim>\<open>String(n)\<close> gives it. \<open>digit_char\<close> is
  applied to numbers below 10 only.
\<close>

definition digit_char :: "nat \<Rightarrow> char" where
  "digit_char d = ''0123456789'' ! d"

fun String :: "nat \<Rightarrow> string" where
  "String n = (if n < 10 then [digit_char n] else String (n div 10) @ [digit_char (n mod 10)])"

declare String.simps [simp del]

text \<open>
  The own enumerable properties that object spread \<^verbatim>\<open>{...v}\<close> copies: the members of an
  object, the indexed elements of an array, the indexed characters of a string, and
  nothing for \<^verbatim>\<open>undefined\<close>, \<^verbatim>\<open>null\<close>, booleans and numbers.
\<close>

fun indexed :: "nat \<Rightarrow> json list \<Rightarrow> (string \<times> json) list" where
  "indexed i [] = []"
| "indexed i (v # vs) = (String i, v) # indexed (Suc i) vs"

fun ownProps :: "json option \<Rightarrow> (string \<times> json) list" where
  "ownProps (Some (JObj kvs)) = kvs"
| "ownProps (Some (JArr vs)) = indexed 0 vs"
| "ownProps (Some (JStr s)) = indexed 0 (map (\<lambda>c. JStr [c]) s)"
| "ownProps _ = []"

text \<open>A later member wins over an earlier one with the same key.\<close>

definition lookup :: "(string \<times> json) list \<Rightarrow> string \<Rightarrow> json option" where
  "lookup kvs k = map_of (rev kvs) k"

text \<open>
  Reading a property \<^verbatim>\<open>v.k\<close> of a parsed value. On \<^verbatim>\<open>null\<close> the read throws a
  TypeError. The program reads only the keys \<^verbatim>\<open>viewport\<close>, \<^verbatim>\<open>imageFormat\<close> and
  \<^verbatim>\<open>imageQuality\<close>, which no array, string, number or boolean has.
\<close>

fun getProp :: "json \<Rightarrow> string \<Rightarrow> error + json option" where
  "getProp JNull k = Inl ''TypeError''"
| "getProp (JObj kvs) k = Inr (lookup kvs k)"
| "getProp _ k = Inr None"

text \<open>JavaScript truthiness, which decides \<^verbatim>\<open>a || b\<close>.\<close>

fun truthy :: "json option \<Rightarrow> bool" where
  "truthy None = False"
| "truthy (Some JNull) = False"
| "truthy (Some (JBool b)) = b"
| "truthy (Some (JNum x)) = (x \<noteq> 0)"
| "truthy (Some (JStr s)) = (s \<noteq> [])"
| "truthy (Some (JArr _)) = True"
| "truthy (Some (JObj _)) = True"

definition or_else :: "json option \<Rightarrow> json \<Rightarrow> json" where
  "or_else a b = (if truthy a then the a else b)"

section \<open>Configuration\<close>

record config =
  outputDir :: string
  scanPatterns :: "string list"
  excludePatterns :: "string list"
  viewport :: "string \<rightharpoonup> json"
  imageFormat :: json
  imageQuality :: json

text \<open>
  What \<open>loadConfig\<close> sees of its surroundings: whether the configuration file exists,
  what reading it gives, the JSON parser, and the project root, which is
  \<^verbatim>\<open>path.join(__dirname, '..')\<close>.
\<close>

record config_env =
  projectRoot :: string
  config_exists :: bool
  config_read :: "error + string"
  json_parse :: "string \<Rightarrow> error + json"

text \<open>
  Every line the program prints, with the values it interpolates. \<open>EffectiveDPI\<close> carries
  the device scale factor, of which the line shows 300 times the value; \<open>Listed\<close> carries
  the path of the file, which the line shows relative to the project root;
  \<open>ErrorProcessing\<close> and \<open>ScanError\<close> carry the message of the error caught.
\<close>

datatype log =
    LoadedCustom
  | UsingDefault
  | ScanError string error
  | OutputDirReady string
  | MkdirError error
  | Processing string
  | Found nat
  | PageDone nat nat string
  | Started
  | Resolution "json option" "json option" "json option"
  | EffectiveDPI "json option"
  | Scanning
  | NoHtmlFiles
  | AddFilesHint
  | FoundFiles nat
  | Listed nat string
  | ErrorProcessing string error
  | Complete
  | Processed nat nat
  | TotalPages nat
  | OutputDirectory string

definition defaultViewport :: "(string \<times> json) list" where
  "defaultViewport =
     [(''width'', JNum 1122), (''height'', JNum 794), (''deviceScaleFactor'', JNum 3)]"

definition defaultConfig :: "string \<Rightarrow> config" where
  "defaultConfig r =
     \<lparr> outputDir = r @ ''/output/images'',
       scanPatterns = [r @ ''/*.html'', r @ ''/**/*.html''],
       excludePatterns = [''**/node_modules/**'', ''**/output/**'', ''**/.git/**'',
                          ''**/dist/**'', ''**/build/**'', ''**/frontend/**''],
       viewport = lookup defaultViewport,
       imageFormat = JStr ''png'',
       imageQuality = JNum 100 \<rparr>"

text \<open>
  The \<^verbatim>\<open>try\<close> block: the custom configuration is the parsed file when the file exists,
  can be read and parses; it stays the empty object otherwise.
\<close>

definition readCustomConfig :: "config_env \<Rightarrow> log list \<times> json" where
  "readCustomConfig e =
     (if config_exists e then
        (case config_read e of
           Inl _ \<Rightarrow> ([UsingDefault], JObj [])
         | Inr configData \<Rightarrow>
             (case json_parse e configData of
                Inl _ \<Rightarrow> ([UsingDefault], JObj [])
              | Inr v \<Rightarrow> ([LoadedCustom], v)))
      else ([], JObj []))"

text \<open>The merge, which runs outside the \<^verbatim>\<open>try\<close> block.\<close>

definition mergeConfig :: "config \<Rightarrow> json \<Rightarrow> error + config" where
  "mergeConfig d customConfig =
     (case getProp customConfig ''viewport'' of
        Inl err \<Rightarrow> Inl err
      | Inr vp \<Rightarrow>
         (case getProp customConfig ''imageFormat'' of
            Inl err \<Rightarrow> Inl err
          | Inr fmt \<Rightarrow>
             (case getProp customConfig ''imageQuality'' of
                Inl err \<Rightarrow> Inl err
              | Inr q \<Rightarrow>
                 Inr (d \<lparr> viewport := viewport d ++ lookup (ownProps vp),
                          imageFormat := or_else fmt (imageFormat d),
                          imageQuality := or_else q (imageQuality d) \<rparr>))))"

definition loadConfig :: "config_env \<Rightarrow> log list \<times> (error + config)" where
  "loadConfig e =
     (let (logs, customConfig) = readCustomConfig e
      in (logs, mergeConfig (defaultConfig (projectRoot e)) customConfig))"

section \<open>Paths\<close>

text \<open>
  \<^verbatim>\<open>path.basename(p, ext)\<close> on POSIX: the last segment of the path, trailing
  slashes aside, without the extension when the segment ends with it and is more than
  the extension. An empty \<open>ext\<close> stands for a call without the second argument.
\<close>

definition stripSlashes :: "string \<Rightarrow> string" where
  "stripSlashes p = rev (dropWhile (\<lambda>c. c = CHR ''/'') (rev p))"

definition lastSegment :: "string \<Rightarrow> string" where
  "lastSegment p = rev (takeWhile (\<lambda>c. c \<noteq> CHR ''/'') (rev p))"

definition endsWith :: "string \<Rightarrow> string \<Rightarrow> bool" where
  "endsWith s ext = (length ext \<le> length s \<and> drop (length s - length ext) s = ext)"

definition basename :: "string \<Rightarrow> string \<Rightarrow> string" where
  "basename p ext =
     (let b = lastSegment (stripSlashes p)
      in if ext \<noteq> [] \<and> p = ext then []
         else if ext \<noteq> [] \<and> b \<noteq> ext \<and> endsWith b ext
              then take (length b - length ext) b
         else b)"

text \<open>
  \<^verbatim>\<open>path.join(dir, name)\<close> for a normalized directory and a name of one segment, which
  is how the program calls it: the output directory is \<^verbatim>\<open>path.join\<close>'s own result and
  the name is built from a base name.
\<close>

definition pathJoin :: "string \<Rightarrow> string \<Rightarrow> string" where
  "pathJoin dir name = dir @ ''/'' @ name"

text \<open>\<^verbatim>\<open>s.padStart(n, '0')\<close>.\<close>

definition padStart :: "nat \<Rightarrow> char \<Rightarrow> string \<Rightarrow> string" where
  "padStart n c s = replicate (n - length s) c @ s"

section \<open>The world the program runs in\<close>

text \<open>
  The calls made on the browser-automation library, with the arguments that vary.
  \<open>Launch\<close> always passes the same options. Elements are named by their index in the
  result of \<^verbatim>\<open>locator('.page').all()\<close>.
\<close>

datatype call =
    Launch
  | NewContext "json option" "json option" "json option"
  | NewPage
  | Goto string string nat
  | WaitForTimeout nat
  | LocatorAll string
  | ScrollIntoViewIfNeeded nat
  | Screenshot nat string json
  | PageClose
  | ContextClose
  | BrowserClose

text \<open>Browser-side objects, named by the file they were opened for.\<close>

datatype handle = Browser string | Context string | Page string

text \<open>
  The environment: the glob library over the directory tree (pattern and ignore list
  to an error message or the matches), directory creation, and the browser. Whether a
  browser call rejects, and how many elements the locator finds, may depend on every
  call made so far.
\<close>

record env =
  glob :: "string \<Rightarrow> string list \<Rightarrow> error + string list"
  mkdir :: "string \<Rightarrow> error option"
  throws :: "call list \<Rightarrow> call \<Rightarrow> error option"
  locate :: "call list \<Rightarrow> nat"

text \<open>
  The state: the browser calls made so far (oldest first, those that rejected
  included), the browser-side objects still open, the image files written (path to
  source file and element index), and the console output.
\<close>

record state =
  calls :: "call list"
  live :: "handle list"
  files :: "string \<rightharpoonup> string \<times> nat"
  console :: "log list"

type_synonym 'a prog = "state \<Rightarrow> (error + 'a) \<times> state"

definition ret :: "'a \<Rightarrow> 'a prog" where
  "ret x st = (Inr x, st)"

text \<open>Sequencing of awaited steps: a rejection skips the rest and keeps the state.\<close>

definition andThen :: "'a prog \<Rightarrow> ('a \<Rightarrow> 'b prog) \<Rightarrow> 'b prog" where
  "andThen m k st = (case m st of (Inl err, st') \<Rightarrow> (Inl err, st') | (Inr x, st') \<Rightarrow> k x st')"

definition say :: "log \<Rightarrow> unit prog" where
  "say l st = (Inr (), st \<lparr> console := console st @ [l] \<rparr>)"

text \<open>
  What a browser call that succeeds changes: launching and opening add an object,
  closing removes it, a screenshot writes its file. A call that rejects changes nothing,
  so an object whose \<^verbatim>\<open>close\<close> rejects stays open. The program closes a browser only after
  its page and its context.
\<close>

fun effect :: "string \<Rightarrow> call \<Rightarrow> state \<Rightarrow> state" where
  "effect f Launch st = st \<lparr> live := live st @ [Browser f] \<rparr>"
| "effect f (NewContext w h s) st = st \<lparr> live := live st @ [Context f] \<rparr>"
| "effect f NewPage st = st \<lparr> live := live st @ [Page f] \<rparr>"
| "effect f (Screenshot i p t) st = st \<lparr> files := (files st)(p \<mapsto> (f, i)) \<rparr>"
| "effect f PageClose st = st \<lparr> live := remove1 (Page f) (live st) \<rparr>"
| "effect f ContextClose st = st \<lparr> live := remove1 (Context f) (live st) \<rparr>"
| "effect f BrowserClose st = st \<lparr> live := remove1 (Browser f) (live st) \<rparr>"
| "effect f _ st = st"

definition perform :: "env \<Rightarrow> string \<Rightarrow> call \<Rightarrow> unit prog" where
  "perform e f c st =
     (case throws e (calls st) c of
        Some err \<Rightarrow> (Inl err, st \<lparr> calls := calls st @ [c] \<rparr>)
      | None \<Rightarrow> (Inr (), effect f c (st \<lparr> calls := calls st @ [c] \<rparr>)))"

definition locatorAll :: "env \<Rightarrow> string \<Rightarrow> string \<Rightarrow> nat prog" where
  "locatorAll e f sel st =
     (case perform e f (LocatorAll sel) st of
        (Inl err, st') \<Rightarrow> (Inl err, st')
      | (Inr _, st') \<Rightarrow> (Inr (locate e (calls st')), st'))"

section \<open>File discovery\<close>

text \<open>\<^verbatim>\<open>new Set(xs)\<close> spread back into an array: first occurrences, in order.\<close>

fun addAll :: "'a list \<Rightarrow> 'a list \<Rightarrow> 'a list" where
  "addAll seen [] = seen"
| "addAll seen (x # xs) = addAll (if x \<in> set seen then seen else seen @ [x]) xs"

definition newSet :: "'a list \<Rightarrow> 'a list" where
  "newSet xs = addAll [] xs"

text \<open>
  The loop over the scan patterns, with \<open>allFiles\<close> as accumulator. A pattern on which
  glob rejects is reported and contributes nothing.
\<close>

fun scanLoop :: "env \<Rightarrow> config \<Rightarrow> string list \<Rightarrow> string list \<Rightarrow> state \<Rightarrow> string list \<times> state" where
  "scanLoop e cfg [] allFiles st = (allFiles, st)"
| "scanLoop e cfg (pattern # rest) allFiles st =
     (case glob e pattern (excludePatterns cfg) of
        Inr fs \<Rightarrow> scanLoop e cfg rest (allFiles @ fs) st
      | Inl err \<Rightarrow>
          scanLoop e cfg rest allFiles (st \<lparr> console := console st @ [ScanError pattern err] \<rparr>))"

text \<open>
  \<^verbatim>\<open>Array.prototype.sort\<close> without a comparator orders strings lexicographically by
  their UTF-16 code units. Characters here are bytes and \<open>sort\<close> is over the
  lexicographic order on them; on paths in UTF-8 the two orders agree except between a
  character outside the Basic Multilingual Plane and one from U+E000 on.
\<close>

definition scanHtmlFiles :: "env \<Rightarrow> config \<Rightarrow> state \<Rightarrow> string list \<times> state" where
  "scanHtmlFiles e cfg st =
     (let (allFiles, st') = scanLoop e cfg (scanPatterns cfg) [] st
      in (sort (newSet allFiles), st'))"

section \<open>Rendering one file\<close>

text \<open>
  The name of the image of element \<open>i\<close> is the template literal of the source, with the
  index \<open>i + 1\<close> padded to two digits.
\<close>

definition imageName :: "string \<Rightarrow> nat \<Rightarrow> string" where
  "imageName fileName i = fileName @ ''_page_'' @ padStart 2 CHR ''0'' (String (i + 1)) @ ''.png''"

definition outputPath :: "config \<Rightarrow> string \<Rightarrow> nat \<Rightarrow> string" where
  "outputPath cfg fileName i = pathJoin (outputDir cfg) (imageName fileName i)"

text \<open>
  The body of the screenshot loop for element \<open>i\<close> (counted from 0) of \<open>n\<close>. The file is
  always named \<^verbatim>\<open>.png\<close>, whatever the configured image format.
\<close>

definition capture :: "env \<Rightarrow> config \<Rightarrow> string \<Rightarrow> string \<Rightarrow> nat \<Rightarrow> nat \<Rightarrow> unit prog" where
  "capture e cfg f fileName n i =
     andThen (perform e f (ScrollIntoViewIfNeeded i)) (\<lambda>_.
     andThen (perform e f (WaitForTimeout 500)) (\<lambda>_.
     andThen (perform e f (Screenshot i (outputPath cfg fileName i) (imageFormat cfg))) (\<lambda>_.
     say (PageDone (i + 1) n (basename (outputPath cfg fileName i) [])))))"

function screenshotLoop :: "env \<Rightarrow> config \<Rightarrow> string \<Rightarrow> string \<Rightarrow> nat \<Rightarrow> nat \<Rightarrow> unit prog" where
  "screenshotLoop e cfg f fileName n i st =
     (if i < n then
        (case capture e cfg f fileName n i st of
           (Inl err, st') \<Rightarrow> (Inl err, st')
         | (Inr _, st') \<Rightarrow> screenshotLoop e cfg f fileName n (i + 1) st')
      else (Inr (), st))"
  by pat_completeness auto
termination
  by (relation "measure (\<lambda>(e, cfg, f, fileName, n, i, st). n - i)") auto

declare screenshotLoop.simps [simp del]

definition convertHtmlToImages :: "env \<Rightarrow> config \<Rightarrow> string \<Rightarrow> nat prog" where
  "convertHtmlToImages e cfg htmlFilePath =
     (let fileName = basename htmlFilePath ''.html'' in
      andThen (say (Processing fileName)) (\<lambda>_.
      andThen (perform e htmlFilePath Launch) (\<lambda>_.
      andThen (perform e htmlFilePath
                 (NewContext (viewport cfg ''width'') (viewport cfg ''height'')
                             (viewport cfg ''deviceScaleFactor''))) (\<lambda>_.
      andThen (perform e htmlFilePath NewPage) (\<lambda>_.
      andThen (perform e htmlFilePath (Goto (''file://'' @ htmlFilePath) ''networkidle'' 60000)) (\<lambda>_.
      andThen (perform e htmlFilePath (WaitForTimeout 3000)) (\<lambda>_.
      andThen (locatorAll e htmlFilePath ''.page'') (\<lambda>n.
      andThen (say (Found n)) (\<lambda>_.
      andThen (screenshotLoop e cfg htmlFilePath fileName n 0) (\<lambda>_.
      andThen (perform e htmlFilePath PageClose) (\<lambda>_.
      andThen (perform e htmlFilePath ContextClose) (\<lambda>_.
      andThen (perform e htmlFilePath BrowserClose) (\<lambda>_.
      ret n)))))))))))))"

section \<open>The run\<close>

definition ensureOutputDir :: "env \<Rightarrow> config \<Rightarrow> unit prog" where
  "ensureOutputDir e cfg st =
     (case mkdir e (outputDir cfg) of
        None \<Rightarrow> say (OutputDirReady (outputDir cfg)) st
      | Some err \<Rightarrow> (Inl err, st \<lparr> console := console st @ [MkdirError err] \<rparr>))"

text \<open>
  The loop over the discovered files, with the three counters \<open>totalPages\<close>,
  \<open>successCount\<close> and \<open>failCount\<close>. A conversion that throws is caught here.
\<close>

fun convertAll :: "env \<Rightarrow> config \<Rightarrow> string list \<Rightarrow> nat \<times> nat \<times> nat \<Rightarrow> state \<Rightarrow> (nat \<times> nat \<times> nat) \<times> state" where
  "convertAll e cfg [] counters st = (counters, st)"
| "convertAll e cfg (htmlFile # rest) (totalPages, successCount, failCount) st =
     (case convertHtmlToImages e cfg htmlFile st of
        (Inr pageCount, st') \<Rightarrow>
          convertAll e cfg rest (totalPages + pageCount, successCount + 1, failCount) st'
      | (Inl err, st') \<Rightarrow>
          convertAll e cfg rest (totalPages, successCount, failCount + 1)
            (st' \<lparr> console := console st' @ [ErrorProcessing htmlFile err] \<rparr>))"

text \<open>The listing of the discovered files, numbered from 1.\<close>

fun listFiles :: "nat \<Rightarrow> string list \<Rightarrow> log list" where
  "listFiles index [] = []"
| "listFiles index (file # rest) = Listed (index + 1) file # listFiles (index + 1) rest"

text \<open>What \<open>main\<close> does once it has found at least one file.\<close>

definition convertFound :: "env \<Rightarrow> config \<Rightarrow> string list \<Rightarrow> unit prog" where
  "convertFound e cfg htmlFiles =
     andThen (say (FoundFiles (length htmlFiles))) (\<lambda>_.
     andThen (\<lambda>st. (Inr (), st \<lparr> console := console st @ listFiles 0 htmlFiles \<rparr>)) (\<lambda>_.
     andThen (\<lambda>st. case convertAll e cfg htmlFiles (0, 0, 0) st of (c, st') \<Rightarrow> (Inr c, st'))
       (\<lambda>(totalPages, successCount, failCount).
     andThen (say Complete) (\<lambda>_.
     andThen (say (Processed successCount failCount)) (\<lambda>_.
     andThen (say (TotalPages totalPages)) (\<lambda>_.
     say (OutputDirectory (outputDir cfg))))))))"

definition main :: "env \<Rightarrow> config \<Rightarrow> unit prog" where
  "main e cfg =
     andThen (say Started) (\<lambda>_.
     andThen (say (Resolution (viewport cfg ''width'') (viewport cfg ''height'')
                     (viewport cfg ''deviceScaleFactor''))) (\<lambda>_.
     andThen (say (EffectiveDPI (viewport cfg ''deviceScaleFactor''))) (\<lambda>_.
     andThen (ensureOutputDir e cfg) (\<lambda>_.
     andThen (say Scanning) (\<lambda>_.
     andThen (\<lambda>st. case scanHtmlFiles e cfg st of (fs, st') \<Rightarrow> (Inr fs, st')) (\<lambda>htmlFiles.
       if htmlFiles = [] then andThen (say NoHtmlFiles) (\<lambda>_. say AddFilesHint)
       else convertFound e cfg htmlFiles))))))"

section \<open>Observations used in the statements\<close>

text \<open>A configuration value counts as positive when it is a number above zero.\<close>

definition positive :: "json option \<Rightarrow> bool" where
  "positive v = (case v of Some (JNum x) \<Rightarrow> 0 < x | _ \<Rightarrow> False)"

text \<open>The keys that the user's \<^verbatim>\<open>viewport\<close> member contributes to the merge.\<close>

definition userViewport :: "(string \<times> json) list \<Rightarrow> string \<rightharpoonup> json" where
  "userViewport members = lookup (ownProps (lookup members ''viewport''))"

text \<open>
  Two glob results agree when both reject or both return the same set of paths, in any
  order and with any repetition.
\<close>

definition sameMatches :: "error + string list \<Rightarrow> error + string list \<Rightarrow> bool" where
  "sameMatches a b =
     (case (a, b) of
        (Inr xs, Inr ys) \<Rightarrow> set xs = set ys
      | (Inl _, Inl _) \<Rightarrow> True
      | _ \<Rightarrow> False)"

text \<open>What one scan pattern contributes to the files, and to the console.\<close>

definition matched :: "env \<Rightarrow> config \<Rightarrow> string \<Rightarrow> string list" where
  "matched e cfg p = (case glob e p (excludePatterns cfg) of Inr fs \<Rightarrow> fs | Inl _ \<Rightarrow> [])"

definition reported :: "env \<Rightarrow> config \<Rightarrow> string \<Rightarrow> log list" where
  "reported e cfg p =
     (case glob e p (excludePatterns cfg) of Inr _ \<Rightarrow> [] | Inl err \<Rightarrow> [ScanError p err])"

text \<open>
  The browser calls of one conversion, in order: opening the session and loading the
  page, the three calls for each element, and the teardown.
\<close>

definition openCalls :: "config \<Rightarrow> string \<Rightarrow> call list" where
  "openCalls cfg f =
     [Launch,
      NewContext (viewport cfg ''width'') (viewport cfg ''height'') (viewport cfg ''deviceScaleFactor''),
      NewPage,
      Goto (''file://'' @ f) ''networkidle'' 60000,
      WaitForTimeout 3000,
      LocatorAll ''.page'']"

definition captureCalls :: "config \<Rightarrow> string \<Rightarrow> nat \<Rightarrow> call list" where
  "captureCalls cfg fileName i =
     [ScrollIntoViewIfNeeded i, WaitForTimeout 500,
      Screenshot i (outputPath cfg fileName i) (imageFormat cfg)]"

definition closeCalls :: "call list" where
  "closeCalls = [PageClose, ContextClose, BrowserClose]"

definition script :: "config \<Rightarrow> string \<Rightarrow> nat \<Rightarrow> call list" where
  "script cfg f n =
     openCalls cfg f @ concat (map (captureCalls cfg (basename f ''.html'')) [0..<n]) @ closeCalls"

text \<open>None of the calls \<open>cs\<close>, made in this order after the history \<open>h\<close>, rejects.\<close>

fun passes :: "env \<Rightarrow> call list \<Rightarrow> call list \<Rightarrow> bool" where
  "passes e h [] = True"
| "passes e h (c # cs) = (throws e h c = None \<and> passes e (h @ [c]) cs)"

text \<open>The image files after the screenshots of the elements \<open>js\<close>, taken in this order.\<close>

definition written :: "config \<Rightarrow> string \<Rightarrow> string \<Rightarrow> nat list \<Rightarrow> (string \<rightharpoonup> string \<times> nat) \<Rightarrow> (string \<rightharpoonup> string \<times> nat)" where
  "written cfg f fileName js m = fold (\<lambda>i m. m(outputPath cfg fileName i \<mapsto> (f, i))) js m"

text \<open>The console lines that report a failed file.\<close>

fun isFailure :: "log \<Rightarrow> bool" where
  "isFailure (ErrorProcessing f err) = True"
| "isFailure _ = False"

text \<open>From \<open>st\<close> to \<open>st'\<close> the console only grew, and by no report of a failed file.\<close>

definition quietly :: "state \<Rightarrow> state \<Rightarrow> bool" where
  "quietly st st' = (\<exists>new. console st' = console st @ new \<and> filter isFailure new = [])"

text \<open>
  A program fragment makes the calls \<open>cs\<close>: whatever its outcome the calls it made are
  an initial part of \<open>cs\<close>, it reports no failed file, and it succeeds exactly when none
  of \<open>cs\<close> rejects, having then made all of them.
\<close>

definition steps :: "env \<Rightarrow> 'a prog \<Rightarrow> call list \<Rightarrow> bool" where
  "steps e m cs =
     (\<forall>st r st'. m st = (r, st') \<longrightarrow>
        prefix (calls st') (calls st @ cs) \<and> quietly st st' \<and>
        (isl r \<or> calls st' = calls st @ cs) \<and>
        (isl r \<longleftrightarrow> \<not> passes e (calls st) cs))"

text \<open>
  The first and the last part of \<open>convertHtmlToImages\<close>, named so that facts about them
  can be stated; \<open>convert_phases\<close> below shows that they add up to it.
\<close>

definition openSession :: "env \<Rightarrow> config \<Rightarrow> string \<Rightarrow> nat prog" where
  "openSession e cfg f =
     andThen (say (Processing (basename f ''.html''))) (\<lambda>_.
     andThen (perform e f Launch) (\<lambda>_.
     andThen (perform e f
                (NewContext (viewport cfg ''width'') (viewport cfg ''height'')
                            (viewport cfg ''deviceScaleFactor''))) (\<lambda>_.
     andThen (perform e f NewPage) (\<lambda>_.
     andThen (perform e f (Goto (''file://'' @ f) ''networkidle'' 60000)) (\<lambda>_.
     andThen (perform e f (WaitForTimeout 3000)) (\<lambda>_.
     andThen (locatorAll e f ''.page'') (\<lambda>n.
     andThen (say (Found n)) (\<lambda>_. ret n))))))))"

definition closeSession :: "env \<Rightarrow> string \<Rightarrow> nat \<Rightarrow> nat prog" where
  "closeSession e f n =
     andThen (perform e f PageClose) (\<lambda>_.
     andThen (perform e f ContextClose) (\<lambda>_.
     andThen (perform e f BrowserClose) (\<lambda>_. ret n)))"

text \<open>The paths of the screenshots among some browser calls, in order.\<close>

fun shotPaths :: "call list \<Rightarrow> string list" where
  "shotPaths [] = []"
| "shotPaths (Screenshot i p t # cs) = p # shotPaths cs"
| "shotPaths (c # cs) = shotPaths cs"

text \<open>The number that a string of decimal digits denotes.\<close>

definition decimal :: "string \<Rightarrow> nat" where
  "decimal s = foldl (\<lambda>a c. 10 * a + (of_char c - 48)) 0 s"

text \<open>The console lines of the screenshot loop.\<close>

definition pageLogs :: "config \<Rightarrow> string \<Rightarrow> nat \<Rightarrow> nat list \<Rightarrow> log list" where
  "pageLogs cfg fileName n js =
     map (\<lambda>i. PageDone (i + 1) n (basename (outputPath cfg fileName i) [])) js"

text \<open>
  The message of the first of the calls \<open>cs\<close>, made in this order after the history \<open>h\<close>,
  that rejects, and the calls that are made when \<open>cs\<close> is attempted: all up to and
  including the first that rejects.
\<close>

fun firstError :: "env \<Rightarrow> call list \<Rightarrow> call list \<Rightarrow> error option" where
  "firstError e h [] = None"
| "firstError e h (c # cs) =
     (case throws e h c of Some err \<Rightarrow> Some err | None \<Rightarrow> firstError e (h @ [c]) cs)"

fun attempted :: "env \<Rightarrow> call list \<Rightarrow> call list \<Rightarrow> call list" where
  "attempted e h [] = []"
| "attempted e h (c # cs) =
     c # (case throws e h c of Some err \<Rightarrow> [] | None \<Rightarrow> attempted e (h @ [c]) cs)"

text \<open>
  A program fragment makes exactly the calls of \<open>cs\<close> that are attempted, and fails with
  the message of the first that rejects.
\<close>

definition exact :: "env \<Rightarrow> 'a prog \<Rightarrow> call list \<Rightarrow> bool" where
  "exact e m cs =
     (\<forall>st r st'. m st = (r, st') \<longrightarrow>
        calls st' = calls st @ attempted e (calls st) cs \<and>
        (case r of Inl err \<Rightarrow> firstError e (calls st) cs = Some err
                 | Inr x \<Rightarrow> firstError e (calls st) cs = None))"

text \<open>
  The outcome of converting a file after the browser calls \<open>h\<close>, and the browser calls
  made once it is over. \<open>convert_by_history\<close> below shows that the other parts of the
  state have no influence on either.
\<close>

definition atHistory :: "call list \<Rightarrow> state" where
  "atHistory h = \<lparr> calls = h, live = [], files = Map.empty, console = [] \<rparr>"

definition outcome :: "env \<Rightarrow> config \<Rightarrow> call list \<Rightarrow> string \<Rightarrow> error + nat" where
  "outcome e cfg h f = fst (convertHtmlToImages e cfg f (atHistory h))"

definition callsAfter :: "env \<Rightarrow> config \<Rightarrow> call list \<Rightarrow> string \<Rightarrow> call list" where
  "callsAfter e cfg h f = calls (snd (convertHtmlToImages e cfg f (atHistory h)))"

text \<open>
  The files of a run in turn, each with the outcome of its conversion, which starts
  after the calls that the conversions before it have made; and the calls made when the
  last is over.
\<close>

fun verdicts :: "env \<Rightarrow> config \<Rightarrow> call list \<Rightarrow> string list \<Rightarrow> (string \<times> (error + nat)) list" where
  "verdicts e cfg h [] = []"
| "verdicts e cfg h (f # fs) = (f, outcome e cfg h f) # verdicts e cfg (callsAfter e cfg h f) fs"

fun historyAfter :: "env \<Rightarrow> config \<Rightarrow> call list \<Rightarrow> string list \<Rightarrow> call list" where
  "historyAfter e cfg h [] = h"
| "historyAfter e cfg h (f # fs) = historyAfter e cfg (callsAfter e cfg h f) fs"

text \<open>
  Of such outcomes: the number of conversions that returned, the number that threw, the
  pages that those that returned have counted, and the console lines that report those
  that threw, each with its file and the message thrown.
\<close>

fun succeeded :: "(string \<times> (error + nat)) list \<Rightarrow> nat" where
  "succeeded [] = 0"
| "succeeded ((f, Inr n) # vs) = succeeded vs + 1"
| "succeeded ((f, Inl err) # vs) = succeeded vs"

fun failed :: "(string \<times> (error + nat)) list \<Rightarrow> nat" where
  "failed [] = 0"
| "failed ((f, Inr n) # vs) = failed vs"
| "failed ((f, Inl err) # vs) = failed vs + 1"

fun pages :: "(string \<times> (error + nat)) list \<Rightarrow> nat" where
  "pages [] = 0"
| "pages ((f, Inr n) # vs) = pages vs + n"
| "pages ((f, Inl err) # vs) = pages vs"

fun failureLines :: "(string \<times> (error + nat)) list \<Rightarrow> log list" where
  "failureLines [] = []"
| "failureLines ((f, Inr n) # vs) = failureLines vs"
| "failureLines ((f, Inl err) # vs) = ErrorProcessing f err # failureLines vs"

section \<open>Example inputs\<close>

definition st0 :: state where
  "st0 = \<lparr> calls = [], live = [], files = Map.empty, console = [] \<rparr>"

definition exampleGlob :: "string \<Rightarrow> string list \<Rightarrow> error + string list" where
  "exampleGlob p ignore =
     (if p = ''/r/*.html'' then Inr [''/r/b.html'', ''/r/a.html'']
      else if p = ''/r/**/*.html'' then Inr [''/r/a.html'', ''/r/s/c.html'', ''/r/b.html'']
      else Inl ''bad pattern'')"

definition exampleGlobAgain :: "string \<Rightarrow> string list \<Rightarrow> error + string list" where
  "exampleGlobAgain p ignore =
     (if p = ''/r/*.html'' then Inr [''/r/a.html'', ''/r/b.html'']
      else if p = ''/r/**/*.html'' then Inr [''/r/s/c.html'', ''/r/b.html'', ''/r/a.html'']
      else Inl ''bad pattern'')"

definition brokenGlob :: "string \<Rightarrow> string list \<Rightarrow> error + string list" where
  "brokenGlob p ignore =
     (if p = ''/r/**/*.html'' then Inr [''/r/s/c.html'', ''/r/a.html''] else Inl ''bad pattern'')"

definition exampleMatches :: "string \<Rightarrow> string \<Rightarrow> bool" where
  "exampleMatches p f = (case exampleGlob p [] of Inr fs \<Rightarrow> f \<in> set fs | Inl _ \<Rightarrow> False)"

definition quietEnv :: "(string \<Rightarrow> string list \<Rightarrow> error + string list) \<Rightarrow> nat \<Rightarrow> env" where
  "quietEnv g n = \<lparr> glob = g, mkdir = (\<lambda>_. None), throws = (\<lambda>_ _. None), locate = (\<lambda>_. n) \<rparr>"

definition userConfigEnv :: "json \<Rightarrow> config_env" where
  "userConfigEnv v =
     \<lparr> projectRoot = ''/r'', config_exists = True, config_read = Inr ''text'',
       json_parse = (\<lambda>_. Inr v) \<rparr>"

definition malformedEnv :: config_env where
  "malformedEnv =
     \<lparr> projectRoot = ''/r'', config_exists = True, config_read = Inr ''{width'',
       json_parse = (\<lambda>_. Inl ''SyntaxError'') \<rparr>"

definition zeroWidthMembers :: "(string \<times> json) list" where
  "zeroWidthMembers = [(''viewport'', JObj [(''width'', JNum 0), (''height'', JNum (- 5))])]"

definition zeroQualityMembers :: "(string \<times> json) list" where
  "zeroQualityMembers = [(''imageQuality'', JNum 0), (''viewport'', JObj [(''width'', JNum 800)])]"

definition customMembers :: "(string \<times> json) list" where
  "customMembers =
     [(''viewport'', JObj [(''width'', JNum 800), (''deviceScaleFactor'', JNum 2)]),
      (''imageQuality'', JNum 80)]"

text \<open>A browser in which loading \<^verbatim>\<open>/r/a.html\<close> times out.\<close>

definition timeoutEnv :: env where
  "timeoutEnv =
     \<lparr> glob = exampleGlob, mkdir = (\<lambda>_. None),
       throws = (\<lambda>h c. if c = Goto ''file:///r/a.html'' ''networkidle'' 60000
                        then Some ''Timeout 60000ms exceeded'' else None),
       locate = (\<lambda>_. 1) \<rparr>"

text \<open>A browser in which the screenshot of the second element of \<^verbatim>\<open>/r/a.html\<close> fails.\<close>

definition captureFailEnv :: env where
  "captureFailEnv =
     \<lparr> glob = exampleGlob, mkdir = (\<lambda>_. None),
       throws = (\<lambda>h c. if c = Screenshot 1 ''/r/output/images/a_page_02.png'' (JStr ''png'')
                        then Some ''Element is not visible'' else None),
       locate = (\<lambda>_. 2) \<rparr>"

text \<open>A tree with two files of the same base name in different directories.\<close>

definition twinGlob :: "string \<Rightarrow> string list \<Rightarrow> error + string list" where
  "twinGlob p ignore =
     (if p = ''/r/**/*.html'' then Inr [''/r/b/x.html'', ''/r/a/x.html''] else Inr [])"

text \<open>A browser in which closing the page fails.\<close>

definition closeFailEnv :: env where
  "closeFailEnv =
     \<lparr> glob = exampleGlob, mkdir = (\<lambda>_. None),
       throws = (\<lambda>h c. if c = PageClose then Some ''Target closed'' else None),
       locate = (\<lambda>_. 2) \<rparr>"

section \<open>Facts about file discovery\<close>

lemma addAll_set: "set (addAll seen xs) = set seen \<union> set xs"
  by (induction xs arbitrary: seen) auto

lemma addAll_distinct: "distinct seen \<Longrightarrow> distinct (addAll seen xs)"
  by (induction xs arbitrary: seen) auto

lemma newSet_set: "set (newSet xs) = set xs"
  by (simp add: newSet_def addAll_set)

lemma newSet_distinct: "distinct (newSet xs)"
  by (simp add: newSet_def addAll_distinct)

lemma scanLoop_files:
  "fst (scanLoop e cfg ps acc st) = acc @ concat (map (matched e cfg) ps)"
  by (induction ps arbitrary: acc st) (auto simp: matched_def split: sum.splits)

lemma scanLoop_console:
  "console (snd (scanLoop e cfg ps acc st)) = console st @ concat (map (reported e cfg) ps)"
  by (induction ps arbitrary: acc st) (auto simp: reported_def split: sum.splits)

lemma scanLoop_rest:
  "calls (snd (scanLoop e cfg ps acc st)) = calls st \<and>
   live (snd (scanLoop e cfg ps acc st)) = live st \<and>
   files (snd (scanLoop e cfg ps acc st)) = files st"
  by (induction ps arbitrary: acc st) (auto split: sum.splits)

lemma scanHtmlFiles_files:
  "fst (scanHtmlFiles e cfg st) = sort (newSet (concat (map (matched e cfg) (scanPatterns cfg))))"
  by (simp add: scanHtmlFiles_def case_prod_beta scanLoop_files)

lemma scanHtmlFiles_console:
  "console (snd (scanHtmlFiles e cfg st)) =
     console st @ concat (map (reported e cfg) (scanPatterns cfg))"
  by (simp add: scanHtmlFiles_def case_prod_beta scanLoop_console)

lemma scanHtmlFiles_set:
  "set (fst (scanHtmlFiles e cfg st)) = (\<Union>p\<in>set (scanPatterns cfg). set (matched e cfg p))"
  by (simp add: scanHtmlFiles_files newSet_set)

lemma sameMatches_matched:
  "sameMatches (glob e p (excludePatterns cfg)) (glob e' p (excludePatterns cfg)) \<Longrightarrow>
   set (matched e cfg p) = set (matched e' cfg p)"
  by (auto simp: sameMatches_def matched_def split: sum.splits)

section \<open>Facts about the configuration\<close>

lemma lookup_Nil: "lookup [] = Map.empty"
  by (rule ext) (simp add: lookup_def)

lemma mergeConfig_object:
  "mergeConfig d (JObj members) =
     Inr (d \<lparr> viewport := viewport d ++ userViewport members,
              imageFormat := or_else (lookup members ''imageFormat'') (imageFormat d),
              imageQuality := or_else (lookup members ''imageQuality'') (imageQuality d) \<rparr>)"
  by (simp add: mergeConfig_def userViewport_def)

lemma mergeConfig_empty: "mergeConfig d (JObj []) = Inr d"
  by (simp add: mergeConfig_object userViewport_def or_else_def lookup_Nil)

lemma loadConfig_object:
  assumes "config_exists e" and "config_read e = Inr text"
    and "json_parse e text = Inr (JObj members)"
  shows "loadConfig e = ([LoadedCustom], mergeConfig (defaultConfig (projectRoot e)) (JObj members))"
  using assms by (simp add: loadConfig_def readCustomConfig_def)

section \<open>Facts about rendering\<close>

subsection \<open>Sequencing\<close>

lemma andThen_Inr:
  "andThen m k st = (Inr y, st'') \<longleftrightarrow> (\<exists>x st'. m st = (Inr x, st') \<and> k x st' = (Inr y, st''))"
  by (auto simp: andThen_def split: prod.splits sum.splits)

lemma andThen_cases:
  assumes "andThen m k st = (r, st')"
  obtains (fails) err where "m st = (Inl err, st')" and "r = Inl err"
        | (goes) x st1 where "m st = (Inr x, st1)" and "k x st1 = (r, st')"
  using assms by (auto simp: andThen_def split: prod.splits sum.splits)

lemma andThen_assoc: "andThen (andThen m k) h = andThen m (\<lambda>x. andThen (k x) h)"
  by (rule ext) (simp add: andThen_def split: prod.splits sum.splits)

lemma andThen_ret: "andThen (ret x) k = k x"
  by (rule ext) (simp add: andThen_def ret_def)

lemma perform_Inr:
  "perform e f c st = (Inr u, st') \<longleftrightarrow>
     throws e (calls st) c = None \<and> st' = effect f c (st \<lparr> calls := calls st @ [c] \<rparr>)"
  by (auto simp: perform_def split: option.splits)

lemma say_Inr: "say l st = (Inr u, st') \<longleftrightarrow> st' = st \<lparr> console := console st @ [l] \<rparr>"
  by (auto simp: say_def)

lemma passes_append: "passes e h (xs @ ys) = (passes e h xs \<and> passes e (h @ xs) ys)"
  by (induction xs arbitrary: h) auto

lemma quietly_refl: "quietly st st"
  by (simp add: quietly_def)

lemma quietly_trans: "quietly a b \<Longrightarrow> quietly b c \<Longrightarrow> quietly a c"
  by (auto simp: quietly_def)

subsection \<open>What a program fragment calls\<close>

lemma stepsD:
  assumes "steps e m cs" and "m st = (r, st')"
  shows "prefix (calls st') (calls st @ cs)" and "quietly st st'"
    and "\<not> isl r \<Longrightarrow> calls st' = calls st @ cs"
    and "isl r \<longleftrightarrow> \<not> passes e (calls st) cs"
  using assms unfolding steps_def by blast+

lemma steps_ret: "steps e (ret x) []"
  by (simp add: steps_def ret_def quietly_refl)

lemma steps_say: "\<not> isFailure l \<Longrightarrow> steps e (say l) []"
  by (simp add: steps_def say_def quietly_def)

lemma effect_keeps: "calls (effect f c st) = calls st \<and> console (effect f c st) = console st"
  by (cases c) simp_all

lemma steps_perform: "steps e (perform e f c) [c]"
  by (auto simp: steps_def perform_def quietly_def effect_keeps split: option.splits)

lemma steps_locatorAll: "steps e (locatorAll e f sel) [LocatorAll sel]"
  by (auto simp: steps_def locatorAll_def perform_def quietly_def split: option.splits)

lemma steps_andThen:
  assumes m: "steps e m cs" and k: "\<And>x. steps e (k x) ds"
  shows "steps e (andThen m k) (cs @ ds)"
  unfolding steps_def
proof (intro allI impI)
  fix st r st'
  assume "andThen m k st = (r, st')"
  then show "prefix (calls st') (calls st @ cs @ ds) \<and> quietly st st' \<and>
             (isl r \<or> calls st' = calls st @ cs @ ds) \<and>
             (isl r \<longleftrightarrow> \<not> passes e (calls st) (cs @ ds))"
  proof (cases rule: andThen_cases)
    case (fails err)
    from stepsD [OF m fails(1)] prefix_prefix [of "calls st'" "calls st @ cs" ds] fails(2)
    show ?thesis by (simp add: passes_append)
  next
    case (goes x st1)
    from stepsD [OF m goes(1)] have 1: "calls st1 = calls st @ cs" "quietly st st1"
      "passes e (calls st) cs"
      by simp_all
    from stepsD [OF k goes(2)] 1 show ?thesis
      by (auto simp: passes_append intro: quietly_trans)
  qed
qed

lemma steps_then_perform:
  assumes "steps e (k ()) ds"
  shows "steps e (andThen (perform e f c) k) (c # ds)"
proof -
  have "steps e (k x) ds" for x using assms by (cases x) simp
  from steps_andThen [OF steps_perform this] show ?thesis by simp
qed

lemma steps_then_say:
  assumes "\<not> isFailure l" and "steps e (k ()) ds"
  shows "steps e (andThen (say l) k) ds"
proof -
  have "steps e (k x) ds" for x using assms(2) by (cases x) simp
  from steps_andThen [OF steps_say [OF assms(1)] this] show ?thesis by simp
qed

lemma steps_then_locatorAll:
  assumes "\<And>n. steps e (k n) ds"
  shows "steps e (andThen (locatorAll e f sel) k) (LocatorAll sel # ds)"
  using steps_andThen [OF steps_locatorAll assms] by simp

lemma openSession_steps: "steps e (openSession e cfg f) (openCalls cfg f)"
  unfolding openSession_def openCalls_def
  by (intro steps_then_perform steps_then_say steps_then_locatorAll steps_ret) simp_all

lemma closeSession_steps: "steps e (closeSession e f n) closeCalls"
  unfolding closeSession_def closeCalls_def
  by (intro steps_then_perform steps_ret)

lemma capture_steps: "steps e (capture e cfg f fileName n i) (captureCalls cfg fileName i)"
  unfolding capture_def captureCalls_def
  by (intro steps_then_perform steps_say) simp

lemma screenshotLoop_unfold:
  "i < n \<Longrightarrow> screenshotLoop e cfg f fileName n i =
     andThen (capture e cfg f fileName n i) (\<lambda>_. screenshotLoop e cfg f fileName n (i + 1))"
  by (rule ext)
     (simp add: screenshotLoop.simps [of e cfg f fileName n i] andThen_def
        split: prod.splits sum.splits)

lemma screenshotLoop_done: "\<not> i < n \<Longrightarrow> screenshotLoop e cfg f fileName n i = ret ()"
  by (rule ext) (simp add: screenshotLoop.simps [of e cfg f fileName n i] ret_def)

lemma screenshotLoop_steps:
  "steps e (screenshotLoop e cfg f fileName n i) (concat (map (captureCalls cfg fileName) [i..<n]))"
proof (induction "n - i" arbitrary: i)
  case 0
  then show ?case by (simp add: screenshotLoop_done steps_ret)
next
  case (Suc d)
  then have less: "i < n" and d: "d = n - (i + 1)" by simp_all
  from less have up: "[i..<n] = i # [i + 1..<n]"
    by (simp add: upt_conv_Cons)
  from steps_andThen [OF capture_steps Suc.hyps(1) [OF d]] show ?case
    by (simp add: screenshotLoop_unfold [OF less] up)
qed

subsection \<open>Runs that succeed\<close>

lemma capture_Inr:
  assumes "capture e cfg f fileName n i st = (Inr u, st')"
  shows "live st' = live st"
    and "files st' = (files st)(outputPath cfg fileName i \<mapsto> (f, i))"
    and "console st' = console st @ [PageDone (i + 1) n (basename (outputPath cfg fileName i) [])]"
  using assms
  by (auto simp: capture_def andThen_Inr perform_Inr say_Inr)

lemma screenshotLoop_Inr:
  "screenshotLoop e cfg f fileName n i st = (Inr u, st') \<Longrightarrow>
   live st' = live st \<and>
   files st' = written cfg f fileName [i..<n] (files st) \<and>
   console st' = console st @ pageLogs cfg fileName n [i..<n]"
proof (induction "n - i" arbitrary: i st)
  case 0
  then show ?case
    by (simp add: screenshotLoop_done ret_def written_def pageLogs_def)
next
  case (Suc d)
  then have less: "i < n" and d: "d = n - (i + 1)" by simp_all
  from less have up: "[i..<n] = i # [i + 1..<n]"
    by (simp add: upt_conv_Cons)
  from Suc.prems less obtain x st1 where
    c: "capture e cfg f fileName n i st = (Inr x, st1)" and
    r: "screenshotLoop e cfg f fileName n (i + 1) st1 = (Inr u, st')"
    by (auto simp: screenshotLoop_unfold andThen_Inr)
  from Suc.hyps(1) [OF d r] capture_Inr [OF c] show ?case
    by (simp add: up written_def pageLogs_def)
qed

lemma openSession_Inr:
  assumes "openSession e cfg f st = (Inr n, st')"
  shows "n = locate e (calls st @ openCalls cfg f)"
    and "live st' = live st @ [Browser f, Context f, Page f]"
    and "files st' = files st"
    and "console st' = console st @ [Processing (basename f ''.html''), Found n]"
  using assms
  by (auto simp: openSession_def andThen_Inr perform_Inr say_Inr ret_def locatorAll_def
      openCalls_def split: prod.splits sum.splits)

lemma closeSession_Inr:
  assumes "closeSession e f n st = (Inr m, st')"
  shows "m = n"
    and "live st' = remove1 (Browser f) (remove1 (Context f) (remove1 (Page f) (live st)))"
    and "files st' = files st"
    and "console st' = console st"
  using assms
  by (auto simp: closeSession_def andThen_Inr perform_Inr ret_def)

lemma convert_phases:
  "convertHtmlToImages e cfg f =
     andThen (openSession e cfg f) (\<lambda>n.
     andThen (screenshotLoop e cfg f (basename f ''.html'') n 0) (\<lambda>_. closeSession e f n))"
  by (simp add: convertHtmlToImages_def openSession_def closeSession_def Let_def
      andThen_assoc andThen_ret)

lemma convert_Inr:
  assumes "convertHtmlToImages e cfg f st = (Inr n, st')"
  shows "n = locate e (calls st @ openCalls cfg f)"
    and "files st' = written cfg f (basename f ''.html'') [0..<n] (files st)"
    and "live st' = remove1 (Browser f) (remove1 (Context f) (remove1 (Page f)
           (live st @ [Browser f, Context f, Page f])))"
    and "console st' = console st @ [Processing (basename f ''.html''), Found n]
           @ pageLogs cfg (basename f ''.html'') n [0..<n]"
proof -
  from assms obtain k st1 u st2 where
    o: "openSession e cfg f st = (Inr k, st1)" and
    l: "screenshotLoop e cfg f (basename f ''.html'') k 0 st1 = (Inr u, st2)" and
    c: "closeSession e f k st2 = (Inr n, st')"
    by (auto simp: convert_phases andThen_Inr)
  from closeSession_Inr(1) [OF c] have k: "k = n" by simp
  from openSession_Inr [OF o [unfolded k]] screenshotLoop_Inr [OF l [unfolded k]]
    closeSession_Inr(2-4) [OF c [unfolded k]]
  show "n = locate e (calls st @ openCalls cfg f)"
    and "files st' = written cfg f (basename f ''.html'') [0..<n] (files st)"
    and "live st' = remove1 (Browser f) (remove1 (Context f) (remove1 (Page f)
           (live st @ [Browser f, Context f, Page f])))"
    and "console st' = console st @ [Processing (basename f ''.html''), Found n]
           @ pageLogs cfg (basename f ''.html'') n [0..<n]"
    by simp_all
qed

subsection \<open>Runs of any outcome\<close>

lemma convert_any:
  assumes "convertHtmlToImages e cfg f st = (r, st')"
    and "N = locate e (calls st @ openCalls cfg f)"
  shows "prefix (calls st') (calls st @ script cfg f N)"
    and "quietly st st'"
    and "isl r \<or> (r = Inr N \<and> calls st' = calls st @ script cfg f N)"
    and "isl r \<longleftrightarrow> \<not> passes e (calls st) (script cfg f N)"
proof -
  let ?loop = "concat (map (captureCalls cfg (basename f ''.html'')) [0..<N])"
  from assms have run: "andThen (openSession e cfg f) (\<lambda>n.
     andThen (screenshotLoop e cfg f (basename f ''.html'') n 0) (\<lambda>_. closeSession e f n)) st = (r, st')"
    by (simp add: convert_phases)
  have "prefix (calls st') (calls st @ script cfg f N) \<and> quietly st st' \<and>
        (isl r \<or> (r = Inr N \<and> calls st' = calls st @ script cfg f N)) \<and>
        (isl r \<longleftrightarrow> \<not> passes e (calls st) (script cfg f N))"
    using run
  proof (cases rule: andThen_cases)
    case (fails err)
    from stepsD [OF openSession_steps fails(1)]
      prefix_prefix [of "calls st'" "calls st @ openCalls cfg f" "?loop @ closeCalls"]
    show ?thesis
      by (simp add: script_def passes_append fails(2))
  next
    case (goes n st1)
    from openSession_Inr(1) [OF goes(1)] assms(2) have n: "n = N" by simp
    from stepsD [OF openSession_steps goes(1)]
    have o: "calls st1 = calls st @ openCalls cfg f" "quietly st st1"
      "passes e (calls st) (openCalls cfg f)"
      by simp_all
    have "steps e (andThen (screenshotLoop e cfg f (basename f ''.html'') n 0)
            (\<lambda>_. closeSession e f n)) (?loop @ closeCalls)"
      unfolding n by (intro steps_andThen screenshotLoop_steps closeSession_steps)
    note rest = stepsD [OF this goes(2)]
    have res: "r = Inr N" if "\<not> isl r"
    proof -
      from that obtain m where "r = Inr m" by (cases r) auto
      with goes(2) closeSession_Inr(1) n show ?thesis
        by (auto simp: andThen_Inr)
    qed
    from rest o res show ?thesis
      by (auto simp: script_def passes_append intro: quietly_trans)
  qed
  then show "prefix (calls st') (calls st @ script cfg f N)"
    and "quietly st st'"
    and "isl r \<or> (r = Inr N \<and> calls st' = calls st @ script cfg f N)"
    and "isl r \<longleftrightarrow> \<not> passes e (calls st) (script cfg f N)"
    by blast+
qed

lemma convert_passes:
  assumes "passes e (calls st) (script cfg f N)" and "N = locate e (calls st @ openCalls cfg f)"
  shows "\<exists>st'. convertHtmlToImages e cfg f st = (Inr N, st') \<and>
               calls st' = calls st @ script cfg f N"
proof -
  obtain r st' where run: "convertHtmlToImages e cfg f st = (r, st')"
    by (cases "convertHtmlToImages e cfg f st")
  from convert_any(3,4) [OF run assms(2)] assms(1) run show ?thesis
    by auto
qed

subsection \<open>The calls made and the error thrown\<close>

lemma firstError_append:
  "firstError e h (xs @ ys) =
     (case firstError e h xs of Some err \<Rightarrow> Some err | None \<Rightarrow> firstError e (h @ xs) ys)"
  by (induction xs arbitrary: h) (auto split: option.splits)

lemma attempted_append:
  "attempted e h (xs @ ys) =
     (case firstError e h xs of Some err \<Rightarrow> attempted e h xs
                              | None \<Rightarrow> xs @ attempted e (h @ xs) ys)"
  by (induction xs arbitrary: h) (auto split: option.splits)

lemma attempted_all: "firstError e h cs = None \<Longrightarrow> attempted e h cs = cs"
  by (induction cs arbitrary: h) (auto split: option.splits)

lemma passes_firstError: "passes e h cs \<longleftrightarrow> firstError e h cs = None"
  by (induction cs arbitrary: h) (auto split: option.splits)

lemma exactD:
  assumes "exact e m cs" and "m st = (r, st')"
  shows "calls st' = calls st @ attempted e (calls st) cs"
    and "r = Inl err \<Longrightarrow> firstError e (calls st) cs = Some err"
    and "r = Inr x \<Longrightarrow> firstError e (calls st) cs = None"
  using assms unfolding exact_def by (auto split: sum.splits)

lemma exact_ret: "exact e (ret x) []"
  by (simp add: exact_def ret_def)

lemma exact_say: "exact e (say l) []"
  by (simp add: exact_def say_def)

lemma exact_perform: "exact e (perform e f c) [c]"
  by (auto simp: exact_def perform_def effect_keeps split: option.splits)

lemma exact_locatorAll: "exact e (locatorAll e f sel) [LocatorAll sel]"
  by (auto simp: exact_def locatorAll_def perform_def split: option.splits)

lemma exact_andThen:
  assumes m: "exact e m cs" and k: "\<And>x. exact e (k x) ds"
  shows "exact e (andThen m k) (cs @ ds)"
  unfolding exact_def
proof (intro allI impI)
  fix st r st'
  assume "andThen m k st = (r, st')"
  then show "calls st' = calls st @ attempted e (calls st) (cs @ ds) \<and>
             (case r of Inl err \<Rightarrow> firstError e (calls st) (cs @ ds) = Some err
                      | Inr x \<Rightarrow> firstError e (calls st) (cs @ ds) = None)"
  proof (cases rule: andThen_cases)
    case (fails err)
    from exactD(1) [OF m fails(1)] exactD(2) [OF m fails(1) refl] fails(2) show ?thesis
      by (simp add: attempted_append firstError_append)
  next
    case (goes x st1)
    from exactD(1) [OF m goes(1)] exactD(3) [OF m goes(1) refl] have 1: "firstError e (calls st) cs = None"
      "calls st1 = calls st @ cs"
      by (simp_all add: attempted_all)
    from exactD(1) [OF k goes(2)] exactD(2,3) [OF k goes(2)] 1 show ?thesis
      by (cases r) (simp_all add: attempted_append firstError_append)
  qed
qed

lemma exact_then_perform:
  assumes "exact e (k ()) ds"
  shows "exact e (andThen (perform e f c) k) (c # ds)"
proof -
  have "exact e (k x) ds" for x using assms by (cases x) simp
  from exact_andThen [OF exact_perform this] show ?thesis by simp
qed

lemma exact_then_say:
  assumes "exact e (k ()) ds"
  shows "exact e (andThen (say l) k) ds"
proof -
  have "exact e (k x) ds" for x using assms by (cases x) simp
  from exact_andThen [OF exact_say this] show ?thesis by simp
qed

lemma exact_then_locatorAll:
  assumes "\<And>n. exact e (k n) ds"
  shows "exact e (andThen (locatorAll e f sel) k) (LocatorAll sel # ds)"
  using exact_andThen [OF exact_locatorAll assms] by simp

lemma openSession_exact: "exact e (openSession e cfg f) (openCalls cfg f)"
  unfolding openSession_def openCalls_def
  by (intro exact_then_perform exact_then_say exact_then_locatorAll exact_ret)

lemma closeSession_exact: "exact e (closeSession e f n) closeCalls"
  unfolding closeSession_def closeCalls_def
  by (intro exact_then_perform exact_ret)

lemma capture_exact: "exact e (capture e cfg f fileName n i) (captureCalls cfg fileName i)"
  unfolding capture_def captureCalls_def
  by (intro exact_then_perform exact_say)

lemma screenshotLoop_exact:
  "exact e (screenshotLoop e cfg f fileName n i) (concat (map (captureCalls cfg fileName) [i..<n]))"
proof (induction "n - i" arbitrary: i)
  case 0
  then show ?case by (simp add: screenshotLoop_done exact_ret)
next
  case (Suc d)
  then have less: "i < n" and d: "d = n - (i + 1)" by simp_all
  from less have up: "[i..<n] = i # [i + 1..<n]"
    by (simp add: upt_conv_Cons)
  from exact_andThen [OF capture_exact Suc.hyps(1) [OF d]] show ?case
    by (simp add: screenshotLoop_unfold [OF less] up)
qed

lemma convert_exact:
  assumes "convertHtmlToImages e cfg f st = (r, st')"
    and "N = locate e (calls st @ openCalls cfg f)"
  shows "calls st' = calls st @ attempted e (calls st) (script cfg f N)"
    and "r = (case firstError e (calls st) (script cfg f N) of
                Some err \<Rightarrow> Inl err | None \<Rightarrow> Inr N)"
proof -
  let ?loop = "concat (map (captureCalls cfg (basename f ''.html'')) [0..<N])"
  from assms have run: "andThen (openSession e cfg f) (\<lambda>n.
     andThen (screenshotLoop e cfg f (basename f ''.html'') n 0) (\<lambda>_. closeSession e f n)) st = (r, st')"
    by (simp add: convert_phases)
  have "calls st' = calls st @ attempted e (calls st) (script cfg f N) \<and>
        r = (case firstError e (calls st) (script cfg f N) of
               Some err \<Rightarrow> Inl err | None \<Rightarrow> Inr N)"
    using run
  proof (cases rule: andThen_cases)
    case (fails err)
    from exactD(1) [OF openSession_exact fails(1)] exactD(2) [OF openSession_exact fails(1) refl]
      fails(2) show ?thesis
      by (simp add: script_def attempted_append firstError_append)
  next
    case (goes n st1)
    from openSession_Inr(1) [OF goes(1)] assms(2) have n: "n = N" by simp
    from exactD(1) [OF openSession_exact goes(1)] exactD(3) [OF openSession_exact goes(1) refl]
    have o: "firstError e (calls st) (openCalls cfg f) = None"
      "calls st1 = calls st @ openCalls cfg f"
      by (simp_all add: attempted_all)
    have ex: "exact e (andThen (screenshotLoop e cfg f (basename f ''.html'') n 0)
            (\<lambda>_. closeSession e f n)) (?loop @ closeCalls)"
      unfolding n by (intro exact_andThen screenshotLoop_exact closeSession_exact)
    show ?thesis
    proof (cases r)
      case (Inl err)
      from exactD(1) [OF ex goes(2)] exactD(2) [OF ex goes(2) Inl] o Inl show ?thesis
        by (simp add: script_def attempted_append firstError_append)
    next
      case (Inr m)
      with goes(2) closeSession_Inr(1) n have m: "m = N"
        by (auto simp: andThen_Inr)
      from exactD(1) [OF ex goes(2)] exactD(3) [OF ex goes(2) Inr] o Inr m show ?thesis
        by (simp add: script_def attempted_append firstError_append)
    qed
  qed
  then show "calls st' = calls st @ attempted e (calls st) (script cfg f N)"
    and "r = (case firstError e (calls st) (script cfg f N) of
                Some err \<Rightarrow> Inl err | None \<Rightarrow> Inr N)"
    by simp_all
qed

subsection \<open>Image names\<close>

lemma of_char_digit: "d < 10 \<Longrightarrow> of_char (digit_char d) = 48 + d"
proof -
  assume "d < 10"
  then have "d \<in> {0, 1, 2, 3, 4, 5, 6, 7, 8, 9}"
    by auto
  then show ?thesis
    by (auto simp: digit_char_def)
qed

lemma decimal_snoc: "decimal (s @ [c]) = 10 * decimal s + (of_char c - 48)"
  by (simp add: decimal_def)

lemma decimal_String: "decimal (String n) = n"
proof (induction n rule: String.induct)
  case (1 n)
  show ?case
  proof (cases "n < 10")
    case True
    then show ?thesis
      by (simp add: String.simps [of n] decimal_def of_char_digit)
  next
    case False
    with 1 show ?thesis
      by (simp add: String.simps [of n] decimal_snoc of_char_digit)
  qed
qed

lemma decimal_zeros: "decimal (replicate k CHR ''0'' @ s) = decimal s"
proof -
  have "foldl (\<lambda>a c. 10 * a + (of_char c - 48)) 0 (replicate k CHR ''0'') = (0::nat)"
    by (induction k) simp_all
  then show ?thesis
    by (simp add: decimal_def)
qed

lemma decimal_padStart: "decimal (padStart 2 CHR ''0'' (String n)) = n"
  by (simp add: padStart_def decimal_zeros decimal_String)

lemma imageName_inj: "imageName fileName i = imageName fileName j \<Longrightarrow> i = j"
proof -
  assume "imageName fileName i = imageName fileName j"
  then have "padStart 2 CHR ''0'' (String (i + 1)) = padStart 2 CHR ''0'' (String (j + 1))"
    by (simp add: imageName_def)
  then have "decimal (padStart 2 CHR ''0'' (String (i + 1)))
           = decimal (padStart 2 CHR ''0'' (String (j + 1)))"
    by simp
  then show "i = j"
    by (simp add: decimal_padStart)
qed

lemma outputPath_inj: "outputPath cfg fileName i = outputPath cfg fileName j \<Longrightarrow> i = j"
  by (auto simp: outputPath_def pathJoin_def dest: imageName_inj)

lemma outputPath_distinct: "distinct (map (outputPath cfg fileName) [0..<n])"
  by (simp add: distinct_map inj_on_def) (blast dest: outputPath_inj)

lemma length_String_small: "n < 10 \<Longrightarrow> String n = [digit_char n]"
  by (simp add: String.simps [of n])

lemma length_String: "n < 100 \<Longrightarrow> length (String n) \<le> 2"
  by (simp add: String.simps [of n] String.simps [of "n div 10"])

lemma length_String_pos: "0 < length (String n)"
  by (simp add: String.simps [of n])

lemma length_padStart: "n < 100 \<Longrightarrow> length (padStart 2 CHR ''0'' (String n)) = 2"
  using length_String [of n] length_String_pos [of n]
  by (simp add: padStart_def)

subsection \<open>Files written\<close>

lemma written_snoc:
  "written cfg f fileName (js @ [k]) m
     = (written cfg f fileName js m)(outputPath cfg fileName k \<mapsto> (f, k))"
  by (simp add: written_def)

lemma written_hit:
  "j \<in> set js \<Longrightarrow> written cfg f fileName js m (outputPath cfg fileName j) = Some (f, j)"
proof (induction js rule: rev_induct)
  case Nil
  then show ?case by simp
next
  case (snoc k js)
  show ?case
  proof (cases "j = k")
    case True
    then show ?thesis by (simp add: written_snoc)
  next
    case False
    with outputPath_inj [of cfg fileName k j] have "outputPath cfg fileName k \<noteq> outputPath cfg fileName j"
      by blast
    with snoc False show ?thesis
      by (simp add: written_snoc)
  qed
qed

lemma written_Nil: "written cfg f fileName [] m = m"
  by (simp add: written_def)

lemma written_dom:
  "dom (written cfg f fileName js m) = dom m \<union> outputPath cfg fileName ` set js"
proof (induction js rule: rev_induct)
  case Nil
  then show ?case by (simp add: written_Nil)
next
  case (snoc k js)
  have "dom (written cfg f fileName (js @ [k]) m)
      = insert (outputPath cfg fileName k) (dom (written cfg f fileName js m))"
    by (simp add: written_snoc)
  also have "\<dots> = insert (outputPath cfg fileName k) (dom m \<union> outputPath cfg fileName ` set js)"
    by (simp only: snoc.IH)
  also have "\<dots> = dom m \<union> outputPath cfg fileName ` set (js @ [k])"
    by simp
  finally show ?case .
qed

lemma shotPaths_append: "shotPaths (xs @ ys) = shotPaths xs @ shotPaths ys"
  by (induction xs rule: shotPaths.induct) simp_all

lemma shotPaths_loop:
  "shotPaths (concat (map (captureCalls cfg fileName) js)) = map (outputPath cfg fileName) js"
  by (induction js) (simp_all add: captureCalls_def)

lemma shotPaths_script:
  "shotPaths (script cfg f n) = map (outputPath cfg (basename f ''.html'')) [0..<n]"
  by (simp add: script_def shotPaths_append shotPaths_loop openCalls_def closeCalls_def)

lemma closeSession_files: "closeSession e f n st = (r, st') \<Longrightarrow> files st' = files st"
  by (auto simp: closeSession_def andThen_def perform_def ret_def
      split: prod.splits sum.splits option.splits)

lemma shotPaths_attempted_close: "shotPaths (attempted e h closeCalls) = []"
  by (simp add: closeCalls_def split: option.splits)

section \<open>Facts about the run\<close>

lemma listFiles_quiet: "filter isFailure (listFiles i fs) = []"
  by (induction fs arbitrary: i) simp_all

lemma reported_quiet: "filter isFailure (concat (map (reported e cfg) ps)) = []"
  by (induction ps) (simp_all add: reported_def split: sum.splits)

lemma convert_by_history:
  "fst (convertHtmlToImages e cfg f st) = outcome e cfg (calls st) f"
  "calls (snd (convertHtmlToImages e cfg f st)) = callsAfter e cfg (calls st) f"
proof -
  obtain r st' where a: "convertHtmlToImages e cfg f st = (r, st')"
    by (cases "convertHtmlToImages e cfg f st")
  obtain r0 st0' where b: "convertHtmlToImages e cfg f (atHistory (calls st)) = (r0, st0')"
    by (cases "convertHtmlToImages e cfg f (atHistory (calls st))")
  have h: "calls (atHistory (calls st)) = calls st"
    by (simp add: atHistory_def)
  note A = convert_exact [OF a refl] and B = convert_exact [OF b refl, unfolded h]
  from A(2) B(2) have "r0 = r" by simp
  moreover from A(1) B(1) have "calls st0' = calls st'" by simp
  ultimately show "fst (convertHtmlToImages e cfg f st) = outcome e cfg (calls st) f"
    "calls (snd (convertHtmlToImages e cfg f st)) = callsAfter e cfg (calls st) f"
    by (simp_all add: outcome_def callsAfter_def a b)
qed

lemma convertAll_verdicts:
  "convertAll e cfg fs (t, s, fl) st = (c', st') \<Longrightarrow>
   c' = (t + pages (verdicts e cfg (calls st) fs),
         s + succeeded (verdicts e cfg (calls st) fs),
         fl + failed (verdicts e cfg (calls st) fs)) \<and>
   calls st' = historyAfter e cfg (calls st) fs \<and>
   (\<exists>new. console st' = console st @ new \<and>
          filter isFailure new = failureLines (verdicts e cfg (calls st) fs))"
proof (induction fs arbitrary: t s fl st)
  case Nil
  then show ?case by auto
next
  case (Cons f fs)
  obtain r st1 where c: "convertHtmlToImages e cfg f st = (r, st1)"
    by (cases "convertHtmlToImages e cfg f st")
  from convert_by_history [of e cfg f st] c have
    v: "outcome e cfg (calls st) f = r" "callsAfter e cfg (calls st) f = calls st1"
    by simp_all
  from convert_any(2) [OF c refl] obtain n1 where
    n1: "console st1 = console st @ n1" "filter isFailure n1 = []"
    by (auto simp: quietly_def)
  show ?case
  proof (cases r)
    case (Inr pageCount)
    with Cons.prems c have "convertAll e cfg fs (t + pageCount, s + 1, fl) st1 = (c', st')"
      by simp
    from Cons.IH [OF this] n1 v Inr show ?thesis
      by auto
  next
    case (Inl err)
    let ?st = "st1 \<lparr> console := console st1 @ [ErrorProcessing f err] \<rparr>"
    from Inl Cons.prems c have "convertAll e cfg fs (t, s, fl + 1) ?st = (c', st')"
      by simp
    from Cons.IH [OF this] obtain new where
      i: "c' = (t + pages (verdicts e cfg (calls st1) fs),
          s + succeeded (verdicts e cfg (calls st1) fs),
          fl + 1 + failed (verdicts e cfg (calls st1) fs))"
      "calls st' = historyAfter e cfg (calls st1) fs"
      "console st' = console ?st @ new"
      "filter isFailure new = failureLines (verdicts e cfg (calls st1) fs)"
      by auto
    from i(3) n1 have "console st' = console st @ (n1 @ ErrorProcessing f err # new)"
      by simp
    moreover from i(4) n1 have "filter isFailure (n1 @ ErrorProcessing f err # new)
        = failureLines (verdicts e cfg (calls st) (f # fs))"
      by (simp add: v Inl)
    ultimately show ?thesis
      using i(1,2) v Inl by auto
  qed
qed

lemma verdicts_length: "succeeded (verdicts e cfg h fs) + failed (verdicts e cfg h fs) = length fs"
proof (induction fs arbitrary: h)
  case Nil
  then show ?case by simp
next
  case (Cons f fs)
  then show ?case by (cases "outcome e cfg h f") simp_all
qed

lemma verdicts_files: "map fst (verdicts e cfg h fs) = fs"
  by (induction fs arbitrary: h) simp_all

lemma convertFound_verdicts:
  "\<exists>before st'.
     convertFound e cfg fs st = (Inr (), st') \<and>
     console st' = console st @ before @
       [Complete,
        Processed (succeeded (verdicts e cfg (calls st) fs)) (failed (verdicts e cfg (calls st) fs)),
        TotalPages (pages (verdicts e cfg (calls st) fs)), OutputDirectory (outputDir cfg)] \<and>
     filter isFailure before = failureLines (verdicts e cfg (calls st) fs) \<and>
     calls st' = historyAfter e cfg (calls st) fs"
proof -
  let ?V = "verdicts e cfg (calls st) fs"
  let ?st1 = "st \<lparr> console := console st @ FoundFiles (length fs) # listFiles 0 fs \<rparr>"
  obtain c st2 where all: "convertAll e cfg fs (0, 0, 0) ?st1 = (c, st2)"
    by (cases "convertAll e cfg fs (0, 0, 0) ?st1")
  from convertAll_verdicts [OF all] obtain new where
    new: "c = (pages ?V, succeeded ?V, failed ?V)" "calls st2 = historyAfter e cfg (calls st) fs"
      "console st2 = console ?st1 @ new" "filter isFailure new = failureLines ?V"
    by auto
  let ?st' = "st2 \<lparr> console := console st2 @
       [Complete, Processed (succeeded ?V) (failed ?V), TotalPages (pages ?V),
        OutputDirectory (outputDir cfg)] \<rparr>"
  have run: "convertFound e cfg fs st = (Inr (), ?st')"
    using all new(1) by (simp add: convertFound_def andThen_def say_def)
  have "console ?st' = console st @ (FoundFiles (length fs) # listFiles 0 fs @ new) @
       [Complete, Processed (succeeded ?V) (failed ?V), TotalPages (pages ?V),
        OutputDirectory (outputDir cfg)]"
    by (simp add: new)
  moreover have "filter isFailure (FoundFiles (length fs) # listFiles 0 fs @ new) = failureLines ?V"
    by (simp add: new listFiles_quiet)
  moreover have "calls ?st' = historyAfter e cfg (calls st) fs"
    by (simp add: new)
  ultimately show ?thesis
    using run by blast
qed

lemma scanHtmlFiles_calls: "calls (snd (scanHtmlFiles e cfg st)) = calls st"
  by (simp add: scanHtmlFiles_def case_prod_beta scanLoop_rest)

section \<open>Facts about the example inputs\<close>

lemma passes_quietEnv: "passes (quietEnv g n) h cs"
  by (induction cs arbitrary: h) (simp_all add: quietEnv_def)

lemma calls_st0: "calls st0 = []" "files st0 = Map.empty" "live st0 = []" "console st0 = []"
  by (simp_all add: st0_def)

lemma names_example:
  "map (\<lambda>i. outputDir (defaultConfig ''/r'') @ ''/'' @ basename ''/r/a.html'' ''.html'' @ ''_page_''
                        @ padStart 2 CHR ''0'' (String (i + 1)) @ ''.png'') [0..<2]
    = [''/r/output/images/a_page_01.png'', ''/r/output/images/a_page_02.png'']"
  by (simp add: defaultConfig_def basename_def stripSlashes_def lastSegment_def endsWith_def
      padStart_def String.simps digit_char_def upt_rec)


text \<open>The equations that evaluate a run on a concrete input.\<close>

lemmas run_defs = main_def convertFound_def andThen_def say_def ret_def ensureOutputDir_def
  convertHtmlToImages_def perform_def locatorAll_def capture_def screenshotLoop.simps
  outputPath_def pathJoin_def imageName_def basename_def stripSlashes_def lastSegment_def
  endsWith_def padStart_def String.simps digit_char_def
  defaultConfig_def defaultViewport_def lookup_def st0_def
  scanHtmlFiles_def newSet_def Let_def

section \<open>Claims about the configuration\<close>

text \<open>
  Claim C3, as stated: for every user-supplied configuration object, also one that
  supplies zero or negative values, the merged configuration has a positive viewport
  width, height and device scale factor. The merge copies the user's values unchecked:
  a configuration file whose viewport sets the width to 0 and the height to -5 is loaded
  without error and the merged width is 0 and the merged height -5.
\<close>

theorem loadConfig_zero_width_not_positive:
  "\<not> isl (snd (loadConfig (userConfigEnv (JObj zeroWidthMembers)))) \<and>
   viewport (projr (snd (loadConfig (userConfigEnv (JObj zeroWidthMembers))))) ''width''
     = Some (JNum 0) \<and>
   \<not> positive (viewport (projr (snd (loadConfig (userConfigEnv (JObj zeroWidthMembers))))) ''width'') \<and>
   \<not> positive (viewport (projr (snd (loadConfig (userConfigEnv (JObj zeroWidthMembers))))) ''height'')"
  by (simp add: loadConfig_def readCustomConfig_def userConfigEnv_def zeroWidthMembers_def
      mergeConfig_def lookup_def positive_def)

text \<open>
  Claim C3, amended: for every user-supplied configuration object, each of the merged
  viewport width, height and device scale factor is the value the object's viewport sets
  for that key, whatever that value is, and the built-in default (1122, 794, 3) where it
  sets none; so the merged value is a positive number exactly when the user's value for
  that key is a positive number or the key is not set.
\<close>

theorem loadConfig_viewport_positive:
  assumes "config_exists e" and "config_read e = Inr configData"
    and "json_parse e configData = Inr (JObj members)"
    and "k \<in> {''width'', ''height'', ''deviceScaleFactor''}"
  shows "\<exists>c. snd (loadConfig e) = Inr c \<and>
           viewport c k =
             (case userViewport members k of
                Some v \<Rightarrow> Some v
              | None \<Rightarrow> Some (JNum (if k = ''width'' then 1122
                                    else if k = ''height'' then 794 else 3))) \<and>
           (positive (viewport c k) \<longleftrightarrow>
              userViewport members k = None \<or> positive (userViewport members k))"
proof -
  let ?d = "defaultConfig (projectRoot e)"
  let ?c = "?d \<lparr> viewport := viewport ?d ++ userViewport members,
              imageFormat := or_else (lookup members ''imageFormat'') (imageFormat ?d),
              imageQuality := or_else (lookup members ''imageQuality'') (imageQuality ?d) \<rparr>"
  have load: "snd (loadConfig e) = Inr ?c"
    using assms(1-3) by (simp add: loadConfig_object mergeConfig_object)
  have dflt: "viewport ?d k = Some (JNum (if k = ''width'' then 1122
                                    else if k = ''height'' then 794 else 3))"
    using assms(4) by (auto simp: defaultConfig_def defaultViewport_def lookup_def)
  have "viewport ?c k =
          (case userViewport members k of
             Some v \<Rightarrow> Some v
           | None \<Rightarrow> Some (JNum (if k = ''width'' then 1122
                                 else if k = ''height'' then 794 else 3))) \<and>
        (positive (viewport ?c k) \<longleftrightarrow>
           userViewport members k = None \<or> positive (userViewport members k))"
  proof (cases "userViewport members k")
    case None
    with dflt show ?thesis by (simp add: map_add_def positive_def)
  next
    case (Some v)
    then show ?thesis by (simp add: map_add_def)
  qed
  with load show ?thesis by blast
qed

theorem loadConfig_viewport_positive_witness:
  "viewport (projr (snd (loadConfig (userConfigEnv (JObj customMembers))))) ''width''
     = Some (JNum 800) \<and>
   positive (viewport (projr (snd (loadConfig (userConfigEnv (JObj customMembers))))) ''width'') \<and>
   viewport (projr (snd (loadConfig (userConfigEnv (JObj customMembers))))) ''height''
     = Some (JNum 794) \<and>
   viewport (projr (snd (loadConfig (userConfigEnv (JObj zeroWidthMembers))))) ''height''
     = Some (JNum (- 5)) \<and>
   \<not> positive (viewport (projr (snd (loadConfig (userConfigEnv (JObj zeroWidthMembers))))) ''height'')"
proof -
  have u: "userViewport customMembers ''width'' = Some (JNum 800)"
      "userViewport customMembers ''height'' = None"
      "userViewport zeroWidthMembers ''height'' = Some (JNum (- 5))"
    by (simp_all add: userViewport_def customMembers_def zeroWidthMembers_def lookup_def)
  have e: "config_exists (userConfigEnv v)" "config_read (userConfigEnv v) = Inr ''text''"
      "json_parse (userConfigEnv v) ''text'' = Inr v" for v
    by (simp_all add: userConfigEnv_def)
  note e1 = e [of "JObj customMembers"] and e2 = e [of "JObj zeroWidthMembers"]
  from loadConfig_viewport_positive [OF e1, of "''width''"]
    loadConfig_viewport_positive [OF e1, of "''height''"]
    loadConfig_viewport_positive [OF e2, of "''height''"]
  show ?thesis
    by (auto simp: u positive_def)
qed

text \<open>
  Claim C6, as stated: each recognized key that is set overrides the built-in default.
  The merge takes \<^verbatim>\<open>imageFormat\<close> and \<^verbatim>\<open>imageQuality\<close> with \<^verbatim>\<open>||\<close>, so a falsy value
  does not override: a configuration file that sets the image quality to 0 is loaded
  with image quality 100.
\<close>

theorem loadConfig_zero_quality_keeps_default:
  "\<not> isl (snd (loadConfig (userConfigEnv (JObj zeroQualityMembers)))) \<and>
   lookup zeroQualityMembers ''imageQuality'' = Some (JNum 0) \<and>
   imageQuality (projr (snd (loadConfig (userConfigEnv (JObj zeroQualityMembers))))) = JNum 100"
  by (simp add: loadConfig_def readCustomConfig_def userConfigEnv_def zeroQualityMembers_def
      mergeConfig_def lookup_def or_else_def defaultConfig_def)

text \<open>
  Claim C6, amended: for a configuration file that parses to an object, every key of
  the merged viewport is the value the file's viewport sets for it, and the built-in
  default where it sets none; the merged image format and image quality are the file's
  values when these are set to a truthy value, and the built-in defaults \<^verbatim>\<open>png\<close> and 100
  when they are unset or falsy. A configuration file that does not parse results in
  the full built-in defaults, after the line that says so, without an error.
\<close>

theorem loadConfig_overrides_and_defaults:
  assumes "config_exists e" and "config_read e = Inr configData"
    and "json_parse e configData = Inr (JObj members)"
    and "config_exists e'" and "config_read e' = Inr configData'"
    and "json_parse e' configData' = Inl err"
  shows "(\<exists>c. loadConfig e = ([LoadedCustom], Inr c) \<and>
            (\<forall>k. viewport c k =
               (case userViewport members k of
                  Some v \<Rightarrow> Some v
                | None \<Rightarrow> viewport (defaultConfig (projectRoot e)) k)) \<and>
            imageFormat c =
              (if truthy (lookup members ''imageFormat'') then the (lookup members ''imageFormat'')
               else JStr ''png'') \<and>
            imageQuality c =
              (if truthy (lookup members ''imageQuality'') then the (lookup members ''imageQuality'')
               else JNum 100)) \<and>
         loadConfig e' = ([UsingDefault], Inr (defaultConfig (projectRoot e')))"
proof -
  let ?d = "defaultConfig (projectRoot e)"
  let ?c = "?d \<lparr> viewport := viewport ?d ++ userViewport members,
              imageFormat := or_else (lookup members ''imageFormat'') (imageFormat ?d),
              imageQuality := or_else (lookup members ''imageQuality'') (imageQuality ?d) \<rparr>"
  have malformed: "loadConfig e' = ([UsingDefault], Inr (defaultConfig (projectRoot e')))"
    using assms(4-6) by (simp add: loadConfig_def readCustomConfig_def mergeConfig_empty)
  have load: "loadConfig e = ([LoadedCustom], Inr ?c)"
    using assms(1-3) by (simp add: loadConfig_object mergeConfig_object)
  have vp: "\<forall>k. viewport ?c k =
      (case userViewport members k of Some v \<Rightarrow> Some v | None \<Rightarrow> viewport ?d k)"
    by (simp add: map_add_def)
  have fmt: "imageFormat ?c =
      (if truthy (lookup members ''imageFormat'') then the (lookup members ''imageFormat'')
       else JStr ''png'')"
    by (simp add: or_else_def defaultConfig_def)
  have q: "imageQuality ?c =
      (if truthy (lookup members ''imageQuality'') then the (lookup members ''imageQuality'')
       else JNum 100)"
    by (simp add: or_else_def defaultConfig_def)
  from load vp fmt q malformed show ?thesis by blast
qed

theorem loadConfig_overrides_and_defaults_witness:
  "fst (loadConfig (userConfigEnv (JObj customMembers))) = [LoadedCustom] \<and>
   viewport (projr (snd (loadConfig (userConfigEnv (JObj customMembers))))) ''width'' = Some (JNum 800) \<and>
   viewport (projr (snd (loadConfig (userConfigEnv (JObj customMembers))))) ''height'' = Some (JNum 794) \<and>
   imageFormat (projr (snd (loadConfig (userConfigEnv (JObj customMembers))))) = JStr ''png'' \<and>
   imageQuality (projr (snd (loadConfig (userConfigEnv (JObj customMembers))))) = JNum 80 \<and>
   loadConfig malformedEnv = ([UsingDefault], Inr (defaultConfig ''/r''))"
proof -
  have u: "userViewport customMembers ''width'' = Some (JNum 800)"
      "userViewport customMembers ''height'' = None"
      "lookup customMembers ''imageFormat'' = None"
      "lookup customMembers ''imageQuality'' = Some (JNum 80)"
    by (simp_all add: userViewport_def customMembers_def lookup_def)
  have d: "viewport (defaultConfig ''/r'') ''height'' = Some (JNum 794)"
    by (simp add: defaultConfig_def defaultViewport_def lookup_def)
  have p: "projectRoot (userConfigEnv (JObj customMembers)) = ''/r''"
      "projectRoot malformedEnv = ''/r''"
    by (simp_all add: userConfigEnv_def malformedEnv_def)
  from loadConfig_overrides_and_defaults [of "userConfigEnv (JObj customMembers)" "''text''" customMembers
      malformedEnv "''{width''" "''SyntaxError''"]
  show ?thesis
    by (auto simp: userConfigEnv_def malformedEnv_def u d p)
qed

section \<open>Claims about file discovery\<close>

text \<open>
  Claim C5: for every list of scan patterns and exclude patterns, the files returned by
  \<open>scanHtmlFiles\<close> contain no duplicates and are sorted in ascending lexicographic order;
  given that glob returns for a pattern only paths that match it and match no exclude
  pattern, every returned file matches some scan pattern and no exclude pattern; and a
  second discovery over the unchanged tree, in which glob may list the same matches in
  another order, returns the identical list. The match relation is arbitrary, so it may
  include that the path is absolute, which is what glob returns under the option
  \<^verbatim>\<open>absolute: true\<close> that the program passes.
\<close>

theorem scanHtmlFiles_sorted_distinct_matching:
  assumes contract:
    "\<forall>p\<in>set (scanPatterns cfg). \<forall>fs. glob e p (excludePatterns cfg) = Inr fs \<longrightarrow>
       (\<forall>f\<in>set fs. matches p f \<and> (\<forall>x\<in>set (excludePatterns cfg). \<not> matches x f))"
    and again:
    "\<forall>p\<in>set (scanPatterns cfg).
       sameMatches (glob e p (excludePatterns cfg)) (glob e' p (excludePatterns cfg))"
  shows "distinct (fst (scanHtmlFiles e cfg st)) \<and>
         sorted (fst (scanHtmlFiles e cfg st)) \<and>
         (\<forall>f\<in>set (fst (scanHtmlFiles e cfg st)).
            (\<exists>p\<in>set (scanPatterns cfg). matches p f) \<and>
            (\<forall>x\<in>set (excludePatterns cfg). \<not> matches x f)) \<and>
         fst (scanHtmlFiles e' cfg st') = fst (scanHtmlFiles e cfg st)"
proof -
  have d: "distinct (fst (scanHtmlFiles e cfg st))"
    by (simp add: scanHtmlFiles_files newSet_distinct)
  have s: "sorted (fst (scanHtmlFiles e cfg st))"
    by (simp add: scanHtmlFiles_files)
  have m: "(\<exists>p\<in>set (scanPatterns cfg). matches p f) \<and>
           (\<forall>x\<in>set (excludePatterns cfg). \<not> matches x f)"
    if "f \<in> set (fst (scanHtmlFiles e cfg st))" for f
  proof -
    from that obtain p where p: "p \<in> set (scanPatterns cfg)" and f: "f \<in> set (matched e cfg p)"
      by (auto simp: scanHtmlFiles_set)
    from f obtain fs where "glob e p (excludePatterns cfg) = Inr fs" and "f \<in> set fs"
      by (cases "glob e p (excludePatterns cfg)") (auto simp: matched_def)
    with contract p show ?thesis by blast
  qed
  have "set (fst (scanHtmlFiles e' cfg st')) = set (fst (scanHtmlFiles e cfg st))"
    using again by (auto simp: scanHtmlFiles_set dest: sameMatches_matched)
  moreover have "distinct (fst (scanHtmlFiles e' cfg st'))" "sorted (fst (scanHtmlFiles e' cfg st'))"
    by (simp_all add: scanHtmlFiles_files newSet_distinct)
  ultimately have "fst (scanHtmlFiles e' cfg st') = fst (scanHtmlFiles e cfg st)"
    using d s by (metis sorted_distinct_set_unique)
  with d s m show ?thesis by blast
qed

theorem scanHtmlFiles_sorted_distinct_matching_witness:
  "fst (scanHtmlFiles (quietEnv exampleGlob 2) (defaultConfig ''/r'') st0) =
     [''/r/a.html'', ''/r/b.html'', ''/r/s/c.html''] \<and>
   distinct (fst (scanHtmlFiles (quietEnv exampleGlob 2) (defaultConfig ''/r'') st0)) \<and>
   sorted (fst (scanHtmlFiles (quietEnv exampleGlob 2) (defaultConfig ''/r'') st0)) \<and>
   fst (scanHtmlFiles (quietEnv exampleGlobAgain 2) (defaultConfig ''/r'') st0) =
     fst (scanHtmlFiles (quietEnv exampleGlob 2) (defaultConfig ''/r'') st0)"
proof -
  let ?cfg = "defaultConfig ''/r''"
  have contract:
    "\<forall>p\<in>set (scanPatterns ?cfg). \<forall>fs.
       glob (quietEnv exampleGlob 2) p (excludePatterns ?cfg) = Inr fs \<longrightarrow>
       (\<forall>f\<in>set fs. exampleMatches p f \<and>
          (\<forall>x\<in>set (excludePatterns ?cfg). \<not> exampleMatches x f))"
    by (simp add: defaultConfig_def quietEnv_def exampleGlob_def exampleMatches_def)
  have again:
    "\<forall>p\<in>set (scanPatterns ?cfg).
       sameMatches (glob (quietEnv exampleGlob 2) p (excludePatterns ?cfg))
                   (glob (quietEnv exampleGlobAgain 2) p (excludePatterns ?cfg))"
    by (simp add: defaultConfig_def quietEnv_def exampleGlob_def exampleGlobAgain_def
        sameMatches_def insert_commute)
  have run: "fst (scanHtmlFiles (quietEnv exampleGlob 2) ?cfg st0) =
     [''/r/a.html'', ''/r/b.html'', ''/r/s/c.html'']"
    by (simp add: scanHtmlFiles_files matched_def defaultConfig_def quietEnv_def exampleGlob_def
        newSet_def)
  from scanHtmlFiles_sorted_distinct_matching [OF contract again, of st0 st0] run show ?thesis
    by simp
qed

text \<open>
  Claim C8: when glob rejects on a scan pattern, the error is reported for that pattern
  and for no other, the remaining patterns are still scanned, and the files returned are
  those of the patterns on which glob did not reject.
\<close>

theorem scanHtmlFiles_partial_results:
  "set (fst (scanHtmlFiles e cfg st)) = (\<Union>p\<in>set (scanPatterns cfg). set (matched e cfg p)) \<and>
   console (snd (scanHtmlFiles e cfg st)) =
     console st @ concat (map (reported e cfg) (scanPatterns cfg))"
  by (simp add: scanHtmlFiles_set scanHtmlFiles_console)

theorem scanHtmlFiles_partial_results_witness:
  "set (fst (scanHtmlFiles (quietEnv brokenGlob 2) (defaultConfig ''/r'') st0)) =
     {''/r/a.html'', ''/r/s/c.html''} \<and>
   console (snd (scanHtmlFiles (quietEnv brokenGlob 2) (defaultConfig ''/r'') st0)) =
     [ScanError ''/r/*.html'' ''bad pattern'']"
  using scanHtmlFiles_partial_results [of "quietEnv brokenGlob 2" "defaultConfig ''/r''" st0]
  by (auto simp: matched_def reported_def defaultConfig_def quietEnv_def brokenGlob_def st0_def)

section \<open>Claims about rendering\<close>

text \<open>
  Claim C4, as stated: every HTML file whose page-marker query yields N elements gets
  exactly N image files. A screenshot that rejects ends the conversion: here the query
  yields two elements, the screenshot of the second fails, and one image file is
  written.
\<close>

theorem convertHtmlToImages_failed_capture_fewer_images:
  "locate captureFailEnv (calls st0 @ openCalls (defaultConfig ''/r'') ''/r/a.html'') = 2 \<and>
   fst (convertHtmlToImages captureFailEnv (defaultConfig ''/r'') ''/r/a.html'' st0)
     = Inl ''Element is not visible'' \<and>
   dom (files (snd (convertHtmlToImages captureFailEnv (defaultConfig ''/r'') ''/r/a.html'' st0)))
     = {''/r/output/images/a_page_01.png''}"
  by (simp add: run_defs captureFailEnv_def)

text \<open>
  Claim C4, amended: for every HTML file whose page-marker query yields N elements, and
  in whose conversion no browser call up to and including the screenshot of the last
  element rejects, the conversion takes exactly N screenshots, of the elements in
  document order, at the paths \<^verbatim>\<open>{outputDir}/{stem}_page_{index}.png\<close> with the index running
  from 1 to N without gaps and padded with zeros to two digits; the N paths are
  distinct, afterwards each holds the image of its element, and no other file is
  written. The conversion returns N when none of the three teardown calls rejects
  either, and throws otherwise.
\<close>

theorem convertHtmlToImages_page_images:
  assumes "convertHtmlToImages e cfg f st = (r, st')"
    and "N = locate e (calls st @ openCalls cfg f)"
    and "passes e (calls st)
           (openCalls cfg f @ concat (map (captureCalls cfg (basename f ''.html'')) [0..<N]))"
  shows "shotPaths (drop (length (calls st)) (calls st')) =
           map (\<lambda>i. outputDir cfg @ ''/'' @ basename f ''.html'' @ ''_page_''
                      @ padStart 2 CHR ''0'' (String (i + 1)) @ ''.png'') [0..<N] \<and>
         distinct (shotPaths (drop (length (calls st)) (calls st'))) \<and>
         (\<forall>i<N. files st' (outputPath cfg (basename f ''.html'') i) = Some (f, i)) \<and>
         dom (files st') = dom (files st) \<union> outputPath cfg (basename f ''.html'') ` {0..<N} \<and>
         (\<forall>i. i + 1 < 100 \<longrightarrow> length (padStart 2 CHR ''0'' (String (i + 1))) = 2) \<and>
         (isl r \<longleftrightarrow> \<not> passes e (calls st) (script cfg f N)) \<and>
         (isl r \<or> r = Inr N)"
proof -
  let ?fn = "basename f ''.html''"
  let ?loop = "concat (map (captureCalls cfg ?fn) [0..<N])"
  from assms(3) have "passes e (calls st) (openCalls cfg f)"
    and "passes e (calls st @ openCalls cfg f) ?loop"
    by (simp_all add: passes_append)
  then have po: "firstError e (calls st) (openCalls cfg f) = None"
    and pl: "firstError e (calls st @ openCalls cfg f) ?loop = None"
    by (simp_all add: passes_firstError)
  from assms(1) have run: "andThen (openSession e cfg f) (\<lambda>n.
     andThen (screenshotLoop e cfg f ?fn n 0) (\<lambda>_. closeSession e f n)) st = (r, st')"
    by (simp add: convert_phases)
  from run obtain n st1 where o: "openSession e cfg f st = (Inr n, st1)"
    and rest: "andThen (screenshotLoop e cfg f ?fn n 0) (\<lambda>_. closeSession e f n) st1 = (r, st')"
  proof (cases rule: andThen_cases)
    case (fails err)
    from exactD(2) [OF openSession_exact fails(1) refl] po show ?thesis by simp
  next
    case (goes x st1)
    then show ?thesis by (rule that)
  qed
  from openSession_Inr(1) [OF o] assms(2) have n: "n = N" by simp
  from exactD(1) [OF openSession_exact o] po have c1: "calls st1 = calls st @ openCalls cfg f"
    by (simp add: attempted_all)
  from rest obtain u st2 where l: "screenshotLoop e cfg f ?fn N 0 st1 = (Inr u, st2)"
    and c: "closeSession e f N st2 = (r, st')"
    unfolding n
  proof (cases rule: andThen_cases)
    case (fails err)
    from exactD(2) [OF screenshotLoop_exact fails(1) refl] pl c1 show ?thesis by simp
  next
    case (goes x st2)
    then show ?thesis by (rule that)
  qed
  from exactD(1) [OF screenshotLoop_exact l] pl c1
  have c2: "calls st2 = calls st @ openCalls cfg f @ ?loop"
    by (simp add: attempted_all)
  from exactD(1) [OF closeSession_exact c] c2
  have c3: "calls st' = calls st @ openCalls cfg f @ ?loop @ attempted e (calls st2) closeCalls"
    by simp
  have fl: "files st' = written cfg f ?fn [0..<N] (files st)"
    using closeSession_files [OF c] screenshotLoop_Inr [OF l] openSession_Inr(3) [OF o]
    by simp
  have names: "map (outputPath cfg ?fn) [0..<N] =
      map (\<lambda>i. outputDir cfg @ ''/'' @ basename f ''.html'' @ ''_page_''
                 @ padStart 2 CHR ''0'' (String (i + 1)) @ ''.png'') [0..<N]"
    by (simp add: outputPath_def pathJoin_def imageName_def)
  have sp: "shotPaths (drop (length (calls st)) (calls st')) = map (outputPath cfg ?fn) [0..<N]"
    by (simp add: c3 shotPaths_append shotPaths_loop shotPaths_attempted_close openCalls_def)
  have d: "distinct (shotPaths (drop (length (calls st)) (calls st')))"
    by (simp only: sp outputPath_distinct)
  have hit: "\<forall>i<N. files st' (outputPath cfg ?fn i) = Some (f, i)"
    by (simp add: fl written_hit)
  have dm: "dom (files st') = dom (files st) \<union> outputPath cfg ?fn ` {0..<N}"
    by (simp add: fl written_dom)
  have len: "\<forall>i. i + 1 < 100 \<longrightarrow> length (padStart 2 CHR ''0'' (String (i + 1))) = 2"
    by (simp add: length_padStart)
  from convert_any(3,4) [OF assms(1,2)]
  have res: "(isl r \<longleftrightarrow> \<not> passes e (calls st) (script cfg f N)) \<and> (isl r \<or> r = Inr N)"
    by blast
  from sp names have sp': "shotPaths (drop (length (calls st)) (calls st')) =
      map (\<lambda>i. outputDir cfg @ ''/'' @ basename f ''.html'' @ ''_page_''
                 @ padStart 2 CHR ''0'' (String (i + 1)) @ ''.png'') [0..<N]"
    by (simp only:)
  from sp' d hit dm len res show ?thesis
    by blast
qed

theorem convertHtmlToImages_page_images_witness:
  "fst (convertHtmlToImages (quietEnv exampleGlob 2) (defaultConfig ''/r'') ''/r/a.html'' st0) = Inr 2 \<and>
   shotPaths (calls (snd (convertHtmlToImages (quietEnv exampleGlob 2) (defaultConfig ''/r'') ''/r/a.html'' st0)))
     = [''/r/output/images/a_page_01.png'', ''/r/output/images/a_page_02.png''] \<and>
   isl (fst (convertHtmlToImages closeFailEnv (defaultConfig ''/r'') ''/r/a.html'' st0)) \<and>
   shotPaths (calls (snd (convertHtmlToImages closeFailEnv (defaultConfig ''/r'') ''/r/a.html'' st0)))
     = [''/r/output/images/a_page_01.png'', ''/r/output/images/a_page_02.png'']"
proof -
  let ?cfg = "defaultConfig ''/r''" and ?f = "''/r/a.html''"
  let ?q = "convertHtmlToImages (quietEnv exampleGlob 2) ?cfg ?f st0"
  let ?c = "convertHtmlToImages closeFailEnv ?cfg ?f st0"
  have nq: "2 = locate (quietEnv exampleGlob 2) (calls st0 @ openCalls ?cfg ?f)"
    by (simp add: quietEnv_def)
  have nc: "2 = locate closeFailEnv (calls st0 @ openCalls ?cfg ?f)"
    by (simp add: closeFailEnv_def)
  have pc: "passes closeFailEnv (calls st0)
      (openCalls ?cfg ?f @ concat (map (captureCalls ?cfg (basename ?f ''.html'')) [0..<2]))"
    by (simp add: closeFailEnv_def openCalls_def captureCalls_def upt_rec)
  have npc: "\<not> passes closeFailEnv (calls st0) (script ?cfg ?f 2)"
    by (simp add: script_def passes_append closeFailEnv_def closeCalls_def)
  note q = convertHtmlToImages_page_images [of "quietEnv exampleGlob 2" ?cfg ?f st0 "fst ?q" "snd ?q" 2,
      OF _ nq passes_quietEnv]
  note c = convertHtmlToImages_page_images [of closeFailEnv ?cfg ?f st0 "fst ?c" "snd ?c" 2,
      OF _ nc pc]
  from q have "fst ?q = Inr 2"
    "shotPaths (drop (length (calls st0)) (calls (snd ?q))) =
      map (\<lambda>i. outputDir ?cfg @ ''/'' @ basename ?f ''.html'' @ ''_page_''
                 @ padStart 2 CHR ''0'' (String (i + 1)) @ ''.png'') [0..<2]"
    using passes_quietEnv [of exampleGlob 2 "calls st0" "script ?cfg ?f 2"] by auto
  moreover from c npc have "isl (fst ?c)"
    "shotPaths (drop (length (calls st0)) (calls (snd ?c))) =
      map (\<lambda>i. outputDir ?cfg @ ''/'' @ basename ?f ''.html'' @ ''_page_''
                 @ padStart 2 CHR ''0'' (String (i + 1)) @ ''.png'') [0..<2]"
    by auto
  ultimately show ?thesis
    unfolding names_example by (simp add: calls_st0)
qed



text \<open>
  Claim C9: the output path of an image depends on the base name of the source file and
  the page index only, not on its directory. When two files with the same base name are
  converted one after the other, the image of page \<open>i\<close> of the second is written to the
  path that held the image of page \<open>i\<close> of the first and replaces it. The instance that
  follows has two such files, in different directories, that discovery returns.
\<close>

theorem convertHtmlToImages_same_stem_overwrites:
  assumes "basename f1 ''.html'' = basename f2 ''.html''"
    and "convertHtmlToImages e cfg f1 st = (Inr n1, st1)"
    and "convertHtmlToImages e cfg f2 st1 = (Inr n2, st2)"
    and "i < n1" and "i < n2"
  shows "outputPath cfg (basename f1 ''.html'') i = outputPath cfg (basename f2 ''.html'') i \<and>
         files st1 (outputPath cfg (basename f1 ''.html'') i) = Some (f1, i) \<and>
         files st2 (outputPath cfg (basename f1 ''.html'') i) = Some (f2, i)"
  using assms convert_Inr(2) [OF assms(2)] convert_Inr(2) [OF assms(3)]
  by (simp add: written_hit)

theorem convertHtmlToImages_same_stem_overwrites_witness:
  "fst (scanHtmlFiles (quietEnv twinGlob 1) (defaultConfig ''/r'') st0)
     = [''/r/a/x.html'', ''/r/b/x.html''] \<and>
   files (snd (convertHtmlToImages (quietEnv twinGlob 1) (defaultConfig ''/r'') ''/r/a/x.html'' st0))
     ''/r/output/images/x_page_01.png'' = Some (''/r/a/x.html'', 0) \<and>
   files (snd (convertHtmlToImages (quietEnv twinGlob 1) (defaultConfig ''/r'') ''/r/b/x.html''
     (snd (convertHtmlToImages (quietEnv twinGlob 1) (defaultConfig ''/r'') ''/r/a/x.html'' st0))))
     ''/r/output/images/x_page_01.png'' = Some (''/r/b/x.html'', 0)"
proof -
  let ?e = "quietEnv twinGlob 1" and ?cfg = "defaultConfig ''/r''"
  let ?st1 = "snd (convertHtmlToImages ?e ?cfg ''/r/a/x.html'' st0)"
  let ?st2 = "snd (convertHtmlToImages ?e ?cfg ''/r/b/x.html'' ?st1)"
  have scan: "fst (scanHtmlFiles ?e ?cfg st0) = [''/r/a/x.html'', ''/r/b/x.html'']"
    by (simp add: scanHtmlFiles_files matched_def defaultConfig_def quietEnv_def twinGlob_def
        newSet_def)
  have b: "basename ''/r/a/x.html'' ''.html'' = basename ''/r/b/x.html'' ''.html''"
    by (simp add: basename_def stripSlashes_def lastSegment_def endsWith_def)
  have n: "1 = locate ?e (h @ openCalls ?cfg f)" for h f
    by (simp add: quietEnv_def)
  from convert_passes [OF passes_quietEnv n] have
    r1: "convertHtmlToImages ?e ?cfg ''/r/a/x.html'' st0 = (Inr 1, ?st1)"
    by (metis snd_conv)
  from convert_passes [OF passes_quietEnv n] have
    r2: "convertHtmlToImages ?e ?cfg ''/r/b/x.html'' ?st1 = (Inr 1, ?st2)"
    by (metis snd_conv)
  have p: "outputPath ?cfg (basename ''/r/a/x.html'' ''.html'') 0 = ''/r/output/images/x_page_01.png''"
    by (simp add: outputPath_def pathJoin_def imageName_def basename_def stripSlashes_def
        lastSegment_def endsWith_def padStart_def String.simps digit_char_def defaultConfig_def)
  note overwritten = convertHtmlToImages_same_stem_overwrites [OF b r1 r2 zero_less_one zero_less_one, unfolded p]
  from overwritten scan show ?thesis
    by blast
qed

text \<open>
  Claim C1 requires that the browser session is torn down on every exit path of the
  conversion and that no conversion starts while the session of the previous file is
  open. The three \<^verbatim>\<open>close\<close> calls are the last statements of \<open>convertHtmlToImages\<close> and
  nothing runs them when an earlier call rejects. Here loading \<^verbatim>\<open>/r/a.html\<close> times out,
  and in a second browser the screenshot of its second element fails: either way the
  conversion ends with the page, the context and the browser of that file still open.
  In the run over \<^verbatim>\<open>/r/a.html\<close> and \<^verbatim>\<open>/r/b.html\<close> the browser for the second file is launched
  right after the navigation that timed out, and the session of the first file is still
  open when the run ends.
\<close>

theorem convertHtmlToImages_failure_leaves_session_open:
  "fst (convertHtmlToImages timeoutEnv (defaultConfig ''/r'') ''/r/a.html'' st0)
     = Inl ''Timeout 60000ms exceeded'' \<and>
   live (snd (convertHtmlToImages timeoutEnv (defaultConfig ''/r'') ''/r/a.html'' st0))
     = [Browser ''/r/a.html'', Context ''/r/a.html'', Page ''/r/a.html''] \<and>
   fst (convertHtmlToImages captureFailEnv (defaultConfig ''/r'') ''/r/a.html'' st0)
     = Inl ''Element is not visible'' \<and>
   live (snd (convertHtmlToImages captureFailEnv (defaultConfig ''/r'') ''/r/a.html'' st0))
     = [Browser ''/r/a.html'', Context ''/r/a.html'', Page ''/r/a.html''] \<and>
   calls (snd (convertAll timeoutEnv (defaultConfig ''/r'') [''/r/a.html'', ''/r/b.html''] (0, 0, 0) st0))
     = [Launch, NewContext (Some (JNum 1122)) (Some (JNum 794)) (Some (JNum 3)), NewPage,
        Goto ''file:///r/a.html'' ''networkidle'' 60000,
        Launch, NewContext (Some (JNum 1122)) (Some (JNum 794)) (Some (JNum 3)), NewPage,
        Goto ''file:///r/b.html'' ''networkidle'' 60000, WaitForTimeout 3000, LocatorAll ''.page'',
        ScrollIntoViewIfNeeded 0, WaitForTimeout 500,
        Screenshot 0 ''/r/output/images/b_page_01.png'' (JStr ''png''),
        PageClose, ContextClose, BrowserClose] \<and>
   live (snd (convertAll timeoutEnv (defaultConfig ''/r'') [''/r/a.html'', ''/r/b.html''] (0, 0, 0) st0))
     = [Browser ''/r/a.html'', Context ''/r/a.html'', Page ''/r/a.html'']"
  by (simp add: run_defs timeoutEnv_def captureFailEnv_def)

section \<open>Claims about the run\<close>

text \<open>
  Claim C7: when the output directory can be created and discovery finds at least one
  file, \<open>main\<close> does not fail, and every discovered file is converted in turn, after the
  browser calls of the conversions before it, whether these returned or threw. A
  conversion that throws is caught and reported on the console with its file and the
  message thrown, and no other failure is reported. The last lines of the console are
  the summary: the count of succeeded files is the number of conversions that returned,
  the count of failed files is the number of conversions that threw, the page total is
  the sum of the counts returned, and the two file counts add up to the number of
  discovered files. Whether a conversion returns or throws, and the browser calls it
  makes, depend on the browser calls made before it and on nothing else in the state.
\<close>

theorem main_summary_counts:
  assumes "mkdir e (outputDir cfg) = None"
    and "htmlFiles = fst (scanHtmlFiles e cfg st)" and "htmlFiles \<noteq> []"
    and "V = verdicts e cfg (calls st) htmlFiles"
  shows "(\<exists>before st'.
     main e cfg st = (Inr (), st') \<and>
     console st' = console st @ before @
       [Complete, Processed (succeeded V) (failed V), TotalPages (pages V),
        OutputDirectory (outputDir cfg)] \<and>
     filter isFailure before = failureLines V \<and>
     calls st' = historyAfter e cfg (calls st) htmlFiles \<and>
     map fst V = htmlFiles \<and>
     succeeded V + failed V = length htmlFiles) \<and>
     (\<forall>s f. fst (convertHtmlToImages e cfg f s) = outcome e cfg (calls s) f \<and>
            calls (snd (convertHtmlToImages e cfg f s)) = callsAfter e cfg (calls s) f)"
proof -
  let ?pre = "[Started,
      Resolution (viewport cfg ''width'') (viewport cfg ''height'') (viewport cfg ''deviceScaleFactor''),
      EffectiveDPI (viewport cfg ''deviceScaleFactor''), OutputDirReady (outputDir cfg), Scanning]"
  let ?st1 = "st \<lparr> console := console st @ ?pre \<rparr>"
  let ?fs = "fst (scanHtmlFiles e cfg ?st1)"
  let ?st2 = "snd (scanHtmlFiles e cfg ?st1)"
  let ?rep = "concat (map (reported e cfg) (scanPatterns cfg))"
  have fs: "?fs = htmlFiles"
    by (simp add: scanHtmlFiles_files assms(2))
  have c2: "console ?st2 = console st @ ?pre @ ?rep"
    by (simp add: scanHtmlFiles_console)
  have h2: "calls ?st2 = calls st"
    by (simp add: scanHtmlFiles_calls)
  have run: "main e cfg st = convertFound e cfg htmlFiles ?st2"
    using assms(1,3) fs
    by (simp add: main_def andThen_def say_def ensureOutputDir_def case_prod_beta)
  from convertFound_verdicts [of e cfg htmlFiles ?st2] obtain before st' where
    s: "convertFound e cfg htmlFiles ?st2 = (Inr (), st')"
       "console st' = console ?st2 @ before @
         [Complete, Processed (succeeded V) (failed V), TotalPages (pages V),
          OutputDirectory (outputDir cfg)]"
       "filter isFailure before = failureLines V"
       "calls st' = historyAfter e cfg (calls st) htmlFiles"
    unfolding h2 assms(4) by blast
  have "console st' = console st @ (?pre @ ?rep @ before) @
         [Complete, Processed (succeeded V) (failed V), TotalPages (pages V),
          OutputDirectory (outputDir cfg)]"
    by (simp add: s(2) c2)
  moreover have "filter isFailure (?pre @ ?rep @ before) = failureLines V"
    by (simp add: s(3) reported_quiet)
  moreover have "map fst V = htmlFiles" "succeeded V + failed V = length htmlFiles"
    by (simp_all add: assms(4) verdicts_files verdicts_length)
  ultimately have "\<exists>before st'.
     main e cfg st = (Inr (), st') \<and>
     console st' = console st @ before @
       [Complete, Processed (succeeded V) (failed V), TotalPages (pages V),
        OutputDirectory (outputDir cfg)] \<and>
     filter isFailure before = failureLines V \<and>
     calls st' = historyAfter e cfg (calls st) htmlFiles \<and>
     map fst V = htmlFiles \<and>
     succeeded V + failed V = length htmlFiles"
    using run s(1,4) by (intro exI [of _ "?pre @ ?rep @ before"] exI [of _ st']) simp
  moreover have "\<forall>s f. fst (convertHtmlToImages e cfg f s) = outcome e cfg (calls s) f \<and>
            calls (snd (convertHtmlToImages e cfg f s)) = callsAfter e cfg (calls s) f"
    by (simp add: convert_by_history)
  ultimately show ?thesis
    by (rule conjI)
qed

theorem main_summary_counts_witness:
  "fst (main timeoutEnv (defaultConfig ''/r'') st0) = Inr () \<and>
   verdicts timeoutEnv (defaultConfig ''/r'') [] [''/r/a.html'', ''/r/b.html'', ''/r/s/c.html'']
     = [(''/r/a.html'', Inl ''Timeout 60000ms exceeded''), (''/r/b.html'', Inr 1),
        (''/r/s/c.html'', Inr 1)] \<and>
   console (snd (main timeoutEnv (defaultConfig ''/r'') st0)) =
   [Started, Resolution (Some (JNum 1122)) (Some (JNum 794)) (Some (JNum 3)),
   EffectiveDPI (Some (JNum 3)), OutputDirReady ''/r/output/images'',
   Scanning, FoundFiles 3, Listed 1 ''/r/a.html'', Listed 2 ''/r/b.html'',
   Listed 3 ''/r/s/c.html'', Processing ''a'',
   ErrorProcessing ''/r/a.html'' ''Timeout 60000ms exceeded'',
   Processing ''b'', Found 1, PageDone 1 1 ''b_page_01.png'',
   Processing ''c'', Found 1, PageDone 1 1 ''c_page_01.png'', Complete,
   Processed 2 1, TotalPages 2, OutputDirectory ''/r/output/images'']"
proof -
  let ?cfg = "defaultConfig ''/r''"
  let ?fs = "[''/r/a.html'', ''/r/b.html'', ''/r/s/c.html'']"
  have m: "mkdir timeoutEnv (outputDir ?cfg) = None"
    by (simp add: timeoutEnv_def)
  have s: "?fs = fst (scanHtmlFiles timeoutEnv ?cfg st0)"
    by (simp add: scanHtmlFiles_files matched_def defaultConfig_def timeoutEnv_def exampleGlob_def
        newSet_def)
  have v: "verdicts timeoutEnv ?cfg [] ?fs
     = [(''/r/a.html'', Inl ''Timeout 60000ms exceeded''), (''/r/b.html'', Inr 1),
        (''/r/s/c.html'', Inr 1)]"
    by (simp add: outcome_def callsAfter_def atHistory_def run_defs timeoutEnv_def)
  from main_summary_counts [OF m s _ refl] obtain before st' where
    r: "main timeoutEnv ?cfg st0 = (Inr (), st')"
    and c: "console st' = console st0 @ before @
       [Complete, Processed (succeeded (verdicts timeoutEnv ?cfg (calls st0) ?fs))
          (failed (verdicts timeoutEnv ?cfg (calls st0) ?fs)),
        TotalPages (pages (verdicts timeoutEnv ?cfg (calls st0) ?fs)),
        OutputDirectory (outputDir ?cfg)]"
    by auto
  from r have "fst (main timeoutEnv ?cfg st0) = Inr ()" by simp
  moreover have "console (snd (main timeoutEnv ?cfg st0)) =
   [Started, Resolution (Some (JNum 1122)) (Some (JNum 794)) (Some (JNum 3)),
   EffectiveDPI (Some (JNum 3)), OutputDirReady ''/r/output/images'',
   Scanning, FoundFiles 3, Listed 1 ''/r/a.html'', Listed 2 ''/r/b.html'',
   Listed 3 ''/r/s/c.html'', Processing ''a'',
   ErrorProcessing ''/r/a.html'' ''Timeout 60000ms exceeded'',
   Processing ''b'', Found 1, PageDone 1 1 ''b_page_01.png'',
   Processing ''c'', Found 1, PageDone 1 1 ''c_page_01.png'', Complete,
   Processed 2 1, TotalPages 2, OutputDirectory ''/r/output/images'']"
    by (simp add: run_defs timeoutEnv_def exampleGlob_def)
  ultimately show ?thesis using v by simp
qed

text \<open>
  Claim C2, as stated: a file in which rendering finds zero page-marker elements is
  counted in the failure tally. In a run over three files, each without a page-marker
  element, the summary reports three succeeded files and no failed file.
\<close>

theorem main_zero_pages_counted_as_success:
  "console (snd (main (quietEnv exampleGlob 0) (defaultConfig ''/r'') st0)) =
   [Started, Resolution (Some (JNum 1122)) (Some (JNum 794)) (Some (JNum 3)),
    EffectiveDPI (Some (JNum 3)), OutputDirReady ''/r/output/images'',
    Scanning, FoundFiles 3, Listed 1 ''/r/a.html'', Listed 2 ''/r/b.html'',
    Listed 3 ''/r/s/c.html'', Processing ''a'', Found 0, Processing ''b'', Found 0,
    Processing ''c'', Found 0, Complete, Processed 3 0, TotalPages 0,
    OutputDirectory ''/r/output/images'']"
  by (simp add: run_defs quietEnv_def exampleGlob_def)

text \<open>
  Claim C2, amended: when rendering a file finds zero page-marker elements and none of
  its browser calls rejects, no image is written, the console reports that zero pages
  were found, the file is counted in the success tally and not in the failure tally,
  and the run continues with the next file.
\<close>

theorem convertAll_zero_pages_success:
  assumes "passes e (calls st) (script cfg f 0)"
    and "locate e (calls st @ openCalls cfg f) = 0"
  shows "\<exists>st'. convertHtmlToImages e cfg f st = (Inr 0, st') \<and>
           files st' = files st \<and>
           console st' = console st @ [Processing (basename f ''.html''), Found 0] \<and>
           convertAll e cfg (f # rest) (totalPages, successCount, failCount) st =
             convertAll e cfg rest (totalPages, successCount + 1, failCount) st'"
proof -
  from convert_passes [OF assms(1) assms(2) [symmetric]] obtain st' where
    run: "convertHtmlToImages e cfg f st = (Inr 0, st')"
    by blast
  from convert_Inr(2,4) [OF run] have "files st' = files st"
    "console st' = console st @ [Processing (basename f ''.html''), Found 0]"
    by (simp_all add: written_Nil pageLogs_def)
  with run show ?thesis by simp
qed

theorem convertAll_zero_pages_success_witness:
  "fst (convertHtmlToImages (quietEnv exampleGlob 0) (defaultConfig ''/r'') ''/r/a.html'' st0) = Inr 0 \<and>
   fst (convertAll (quietEnv exampleGlob 0) (defaultConfig ''/r'') [''/r/a.html''] (0, 0, 0) st0)
     = (0, 1, 0)"
proof -
  have p: "passes (quietEnv exampleGlob 0) (calls st0) (script (defaultConfig ''/r'') ''/r/a.html'' 0)"
    by (rule passes_quietEnv)
  have n: "locate (quietEnv exampleGlob 0) (calls st0 @ openCalls (defaultConfig ''/r'') ''/r/a.html'') = 0"
    by (simp add: quietEnv_def)
  from convertAll_zero_pages_success [OF p n, of "[]" 0 0 0] show ?thesis
    by auto
qed

end
